theory Spec2Isabelle
  imports Main "HOL-Library.Sublist" "HOL-Library.Word"
begin

section \<open>Python strings\<close>

text \<open>
  The report lines, the output lines of the child and the messages given to the host are
  Python \<open>str\<close> values: lists of Unicode code points. \<open>cps\<close> writes a literal.
\<close>

type_synonym str = "nat list"

definition cps :: "string \<Rightarrow> str" where
  "cps s = map of_char s"

text \<open>
  \<open>str.strip()\<close> and \<open>str.rstrip()\<close> remove the characters for which \<open>str.isspace\<close>
  holds: U+0009 to U+000D, U+001C to U+0020, U+0085, U+00A0, U+1680, U+2000 to U+200A, U+2028,
  U+2029, U+202F, U+205F and U+3000.
\<close>

definition is_space :: "nat \<Rightarrow> bool" where
  "is_space c =
     ((9 \<le> c \<and> c \<le> 13) \<or> (28 \<le> c \<and> c \<le> 32) \<or> c = 133 \<or> c = 160 \<or> c = 5760
      \<or> (8192 \<le> c \<and> c \<le> 8202) \<or> c = 8232 \<or> c = 8233 \<or> c = 8239 \<or> c = 8287
      \<or> c = 12288)"

definition rstrip :: "str \<Rightarrow> str" where
  "rstrip s = rev (dropWhile is_space (rev s))"

definition strip :: "str \<Rightarrow> str" where
  "strip s = rstrip (dropWhile is_space s)"

text \<open>
  \<open>str.upper()\<close> is the case mapping of the Unicode database, which is not part of the
  repository: the functions that call it take it as the parameter \<open>upper\<close>, and what is
  proved about them holds for every such function.
\<close>

text \<open>\<open>sep.join(parts)\<close>.\<close>

fun join :: "str \<Rightarrow> str list \<Rightarrow> str" where
  "join sep [] = []"
| "join sep [p] = p"
| "join sep (p # q # ps) = p @ sep @ join sep (q # ps)"

section \<open>The progress and log sink\<close>

text \<open>
  The host's observers: \<open>feedback.pushInfo\<close>, \<open>feedback.pushWarning\<close>,
  \<open>feedback.reportError\<close> and \<open>QgsMessageLog.logMessage\<close>. Each keeps what it was
  given, in order.
\<close>

datatype level = Info | Warning | Critical

record ui =
  fb_info :: "str list"
  fb_warnings :: "str list"
  fb_errors :: "str list"
  msg_log :: "(level \<times> str) list"

definition ui0 :: ui where
  "ui0 = \<lparr>fb_info = [], fb_warnings = [], fb_errors = [], msg_log = []\<rparr>"

definition pushInfo :: "str \<Rightarrow> ui \<Rightarrow> ui" where
  "pushInfo m u = u\<lparr>fb_info := fb_info u @ [m]\<rparr>"

definition pushWarning :: "str \<Rightarrow> ui \<Rightarrow> ui" where
  "pushWarning m u = u\<lparr>fb_warnings := fb_warnings u @ [m]\<rparr>"

definition reportError :: "str \<Rightarrow> ui \<Rightarrow> ui" where
  "reportError m u = u\<lparr>fb_errors := fb_errors u @ [m]\<rparr>"

definition logMessage :: "str \<Rightarrow> level \<Rightarrow> ui \<Rightarrow> ui" where
  "logMessage m lv u = u\<lparr>msg_log := msg_log u @ [(lv, m)]\<rparr>"

text \<open>
  The idiom \<open>if feedback: feedback.f(m)\<close> of \<open>swmm_run_inp_or_gpkg.py\<close>; the flag says
  whether a feedback object was passed.
\<close>

definition with_feedback :: "bool \<Rightarrow> (ui \<Rightarrow> ui) \<Rightarrow> ui \<Rightarrow> ui" where
  "with_feedback feedback f u = (if feedback then f u else u)"

section \<open>Scanning the report file\<close>

text \<open>
  An exception caught by \<open>except Exception as e\<close>, as far as the handlers look at it:
  \<open>str(e)\<close> and the lines of \<open>traceback.format_exception\<close>.
\<close>

datatype exc = Exc (str_of: str) (format_exception: "str list")

text \<open>
  What iterating over the opened report yields: a line, or an I/O error raised by the read.
  A report file, once \<open>Path(report_file).exists()\<close> has returned, is missing, cannot be
  opened, or is opened.
\<close>

datatype rline = RLine str | RFail exc

datatype report = Missing | Unopenable exc | Opened "rline list"

text \<open>
  The keyword test of \<open>RunSWMMInp._scan_report\<close> in \<open>swmm_run_inp_or_gpkg.py\<close>
  (\<open>line_upper.startswith('ERROR') or line_upper.startswith('WARNING')\<close>) and the one of
  \<open>RunSWMMInp.processAlgorithm\<close> in \<open>swmm_run_inp.py\<close>
  (\<open>'ERROR' in line_upper or 'WARNING' in line_upper\<close>).
\<close>

definition keyword_gpkg :: "str \<Rightarrow> bool" where
  "keyword_gpkg line_upper =
     (prefix (cps ''ERROR'') line_upper \<or> prefix (cps ''WARNING'') line_upper)"

definition keyword_inp :: "str \<Rightarrow> bool" where
  "keyword_inp line_upper =
     (sublist (cps ''ERROR'') line_upper \<or> sublist (cps ''WARNING'') line_upper)"

definition max_rpt_messages :: nat where
  "max_rpt_messages = 10"

text \<open>
  The \<open>for line in rpt\<close> loop, the same in both modules but for the keyword test \<open>kw\<close> and
  for the feedback object, which \<open>swmm_run_inp.py\<close> always has. The loop carries
  \<open>rpt_message_count\<close> and the number of lines read so far; it ends with the error raised
  by a read (\<open>Inl\<close>) or with \<open>rpt_truncated\<close> (\<open>Inr\<close>).
\<close>

fun scan_lines :: "(str \<Rightarrow> str) \<Rightarrow> (str \<Rightarrow> bool) \<Rightarrow> bool \<Rightarrow> rline list \<Rightarrow> nat \<Rightarrow> nat \<Rightarrow> ui
    \<Rightarrow> (exc + bool) \<times> nat \<times> ui" where
  "scan_lines upper kw feedback [] rpt_message_count n u = (Inr False, n, u)"
| "scan_lines upper kw feedback (RFail e # rest) rpt_message_count n u = (Inl e, n, u)"
| "scan_lines upper kw feedback (RLine line # rest) rpt_message_count n u =
     (let line_stripped = strip line in
      if line_stripped = [] then scan_lines upper kw feedback rest rpt_message_count (n + 1) u
      else if kw (upper line_stripped) then
        (if rpt_message_count \<ge> max_rpt_messages then (Inr True, n + 1, u)
         else scan_lines upper kw feedback rest (rpt_message_count + 1) (n + 1)
                (logMessage line_stripped Warning
                  (with_feedback feedback (pushWarning line_stripped) u)))
      else scan_lines upper kw feedback rest rpt_message_count (n + 1) u)"

text \<open>
  The scan once \<open>Path(report_file).exists()\<close> has returned: nothing for a missing file;
  otherwise the \<open>try\<close> block, where an error of \<open>open\<close> or of a read becomes one
  warning. The result is the number of report lines read and the sink.
\<close>

definition scan_failed :: "bool \<Rightarrow> exc \<Rightarrow> ui \<Rightarrow> ui" where
  "scan_failed feedback e u =
     (let message = cps ''Unable to scan report for warnings/errors: '' @ str_of e in
      logMessage message Warning (with_feedback feedback (pushWarning message) u))"

definition scan_with :: "(str \<Rightarrow> str) \<Rightarrow> (str \<Rightarrow> bool) \<Rightarrow> bool \<Rightarrow> report \<Rightarrow> ui \<Rightarrow> nat \<times> ui" where
  "scan_with upper kw feedback report_file u =
     (case report_file of
        Missing \<Rightarrow> (0, u)
      | Unopenable e \<Rightarrow> (0, scan_failed feedback e u)
      | Opened rpt \<Rightarrow>
          (case scan_lines upper kw feedback rpt 0 0 u of
             (Inl e, n, u') \<Rightarrow> (n, scan_failed feedback e u')
           | (Inr rpt_truncated, n, u') \<Rightarrow>
               (n, if rpt_truncated
                   then logMessage (cps ''...'') Warning
                          (with_feedback feedback (pushWarning (cps ''...'')) u')
                   else u')))"

text \<open>
  \<open>RunSWMMInp._scan_report(report_file, log_tag, feedback)\<close> of \<open>swmm_run_inp_or_gpkg.py\<close>,
  once \<open>Path(report_file).exists()\<close> has returned.
\<close>

definition scan_report :: "(str \<Rightarrow> str) \<Rightarrow> report \<Rightarrow> bool \<Rightarrow> ui \<Rightarrow> nat \<times> ui" where
  "scan_report upper report_file feedback u = scan_with upper keyword_gpkg feedback report_file u"


text \<open>
  The scan at the end of \<open>RunSWMMInp.processAlgorithm\<close> of \<open>swmm_run_inp.py\<close>, once
  \<open>Path(report_file).exists()\<close> has returned.
\<close>

definition scan_report_inp :: "(str \<Rightarrow> str) \<Rightarrow> report \<Rightarrow> ui \<Rightarrow> nat \<times> ui" where
  "scan_report_inp upper report_file u = scan_with upper keyword_inp True report_file u"

text \<open>
  The vocabulary of the statements about the scan: the lines read before the first failing
  read, that failure, and the diagnostic lines (stripped, non-empty, keyword test on the
  upper-cased text) of a list of lines.
\<close>

fun readable :: "rline list \<Rightarrow> str list" where
  "readable [] = []"
| "readable (RFail e # rest) = []"
| "readable (RLine line # rest) = line # readable rest"

fun first_fail :: "rline list \<Rightarrow> exc option" where
  "first_fail [] = None"
| "first_fail (RFail e # rest) = Some e"
| "first_fail (RLine line # rest) = first_fail rest"

definition diagnostics :: "(str \<Rightarrow> str) \<Rightarrow> (str \<Rightarrow> bool) \<Rightarrow> str list \<Rightarrow> str list" where
  "diagnostics upper kw ls = filter (\<lambda>s. s \<noteq> [] \<and> kw (upper s)) (map strip ls)"

text \<open>
  The classification as the specification words it: a line is diagnostic when its
  upper-cased, trimmed content is non-empty and starts with \<open>ERROR\<close> or \<open>WARNING\<close>; in
  the looser variant, when it contains either.
\<close>

definition spec_diagnostic :: "(str \<Rightarrow> str) \<Rightarrow> str \<Rightarrow> bool" where
  "spec_diagnostic upper line =
     (strip line \<noteq> [] \<and>
      (prefix (cps ''ERROR'') (upper (strip line)) \<or> prefix (cps ''WARNING'') (upper (strip line))))"

definition spec_diagnostic_loose :: "(str \<Rightarrow> str) \<Rightarrow> str \<Rightarrow> bool" where
  "spec_diagnostic_loose upper line =
     (strip line \<noteq> [] \<and>
      (sublist (cps ''ERROR'') (upper (strip line)) \<or> sublist (cps ''WARNING'') (upper (strip line))))"

text \<open>
  What follows the diagnostic lines in the output of a scan: the marker when there were
  more than ten, else the message of the handler when a read failed.
\<close>

definition trailer :: "nat \<Rightarrow> exc option \<Rightarrow> str list" where
  "trailer found failure =
     (if 10 < found then [cps ''...'']
      else case failure of None \<Rightarrow> []
           | Some e \<Rightarrow> [cps ''Unable to scan report for warnings/errors: '' @ str_of e])"

section \<open>Running the child process\<close>

text \<open>
  What the next read of \<open>proc.stdout\<close> gives: a line, the end of the stream, an
  exception (the text decoding of \<open>universal_newlines=True\<close> is strict), or nothing ever
  (the child is silent and alive, the read blocks).
\<close>

datatype read = Line str | EOF | ReadError exc | Blocks

text \<open>
  The child: its output, read by read, and what \<open>proc.wait()\<close> returns, depending on
  whether \<open>proc.terminate()\<close> was called. \<open>wait\<close> is taken to return.
\<close>

record child =
  stdout :: "nat \<Rightarrow> read"
  wait :: "bool \<Rightarrow> int"

text \<open>
  What a run has done: the sink, the lines read from the child, the calls of
  \<open>is_canceled\<close>, whether \<open>proc.terminate()\<close> was called, the calls of
  \<open>_scan_report\<close> and the report lines it read.
\<close>

record effects =
  sink :: ui
  lines_read :: nat
  polls :: nat
  terminated :: bool
  scans :: nat
  rpt_lines_read :: nat

definition effects0 :: effects where
  "effects0 = \<lparr>sink = ui0, lines_read = 0, polls = 0, terminated = False, scans = 0,
     rpt_lines_read = 0\<rparr>"

text \<open>
  \<open>is_canceled\<close>: a feedback object or a task, when passed, is the answer of its
  \<open>isCanceled()\<close> at each call, numbered from 0.
\<close>

definition is_canceled :: "(nat \<Rightarrow> bool) option \<Rightarrow> (nat \<Rightarrow> bool) option \<Rightarrow> nat \<Rightarrow> bool" where
  "is_canceled feedback task k =
     (if (case feedback of None \<Rightarrow> False | Some f \<Rightarrow> f k) then True
      else if (case task of None \<Rightarrow> False | Some t \<Rightarrow> t k) then True
      else False)"

text \<open>
  What the loop does with a line before it polls: \<open>if line.strip(): ...\<close> gives the line,
  right-stripped, to \<open>feedback.pushInfo\<close> (when there is a feedback object) and to
  \<open>QgsMessageLog.logMessage\<close>.
\<close>

definition deliver :: "bool \<Rightarrow> str \<Rightarrow> ui \<Rightarrow> ui" where
  "deliver feedback line u =
     (if strip line \<noteq> []
      then logMessage (rstrip line) Info (with_feedback feedback (pushInfo (rstrip line)) u)
      else u)"

text \<open>
  The loop \<open>for line in proc.stdout\<close>. It returns the exception of a read, if any, and
  the effects; it does not return when a read blocks, nor when the child prints for ever
  and nobody cancels.
\<close>

partial_function (option) read_stdout :: "(nat \<Rightarrow> read) \<Rightarrow> (nat \<Rightarrow> bool) option
    \<Rightarrow> (nat \<Rightarrow> bool) option \<Rightarrow> effects \<Rightarrow> (exc option \<times> effects) option" where
  "read_stdout out feedback task e =
     (case out (lines_read e) of
        Blocks \<Rightarrow> None
      | EOF \<Rightarrow> Some (None, e)
      | ReadError x \<Rightarrow> Some (Some x, e)
      | Line line \<Rightarrow>
          (let e1 = e\<lparr>lines_read := lines_read e + 1,
                      sink := deliver (feedback \<noteq> None) line (sink e)\<rparr>;
               canceled = is_canceled feedback task (polls e1);
               e2 = e1\<lparr>polls := polls e1 + 1\<rparr>
           in if canceled then Some (None, e2\<lparr>terminated := True\<rparr>)
              else read_stdout out feedback task e2))"

text \<open>
  The body of the \<open>try\<close> of \<open>RunSWMMInp._run_swmm_process\<close>: \<open>Popen\<close> raises or
  gives the child; the loop; \<open>proc.wait()\<close>. \<open>Inl\<close> is the exception that leaves the
  block.
\<close>

definition swmm_block :: "exc + child \<Rightarrow> (nat \<Rightarrow> bool) option \<Rightarrow> (nat \<Rightarrow> bool) option
    \<Rightarrow> effects \<Rightarrow> ((exc + int) \<times> effects) option" where
  "swmm_block popen feedback task e =
     (case popen of
        Inl x \<Rightarrow> Some (Inl x, e)
      | Inr proc \<Rightarrow>
          (case read_stdout (stdout proc) feedback task e of
             None \<Rightarrow> None
           | Some (Some x, e') \<Rightarrow> Some (Inl x, e')
           | Some (None, e') \<Rightarrow> Some (Inr (wait proc (terminated e')), e')))"

text \<open>The handler \<open>except Exception as e\<close> of \<open>_run_swmm_process\<close>.\<close>

definition run_failed :: "bool \<Rightarrow> exc \<Rightarrow> ui \<Rightarrow> ui" where
  "run_failed feedback x u =
     (let message = cps ''Exception thrown running SWMM: '' @ str_of x @ [10]
                    @ join [10] (format_exception x)
      in logMessage message Critical (with_feedback feedback (reportError message) u))"

text \<open>
  \<open>RunSWMMInp._run_swmm_process(args, inp_file, report_file, log_tag, feedback, task)\<close>
  of \<open>swmm_run_inp_or_gpkg.py\<close>, once \<open>Path(report_file).exists()\<close> has returned: the exit
  code and the effects, when it returns.
\<close>

definition run_swmm_process :: "(str \<Rightarrow> str) \<Rightarrow> exc + child \<Rightarrow> report \<Rightarrow> (nat \<Rightarrow> bool) option
    \<Rightarrow> (nat \<Rightarrow> bool) option \<Rightarrow> effects \<Rightarrow> (int \<times> effects) option" where
  "run_swmm_process upper popen report_file feedback task e =
     (case swmm_block popen feedback task e of
        None \<Rightarrow> None
      | Some (Inl x, e') \<Rightarrow> Some (1, e'\<lparr>sink := run_failed (feedback \<noteq> None) x (sink e')\<rparr>)
      | Some (Inr exit_code, e') \<Rightarrow>
          (let (n, u) = scan_report upper report_file (feedback \<noteq> None) (sink e')
           in Some (exit_code, e'\<lparr>sink := u, scans := scans e' + 1, rpt_lines_read := n\<rparr>)))"


text \<open>The lines given to \<open>QgsMessageLog.logMessage\<close> at level \<open>Info\<close>.\<close>

definition logged_info :: "ui \<Rightarrow> str list" where
  "logged_info u = map snd (filter (\<lambda>p. fst p = Info) (msg_log u))"

section \<open>The downloader\<close>

text \<open>
  Bytes are 8-bit words. \<open>bytes.decode('utf-8')\<close> is the strict decoder: well-formed
  sequences only (no overlong form, no surrogate, nothing above U+10FFFF), to the list of
  code points; \<open>None\<close> is \<open>UnicodeDecodeError\<close>.
\<close>

type_synonym byte = "8 word"

definition continuation :: "byte \<Rightarrow> nat" where
  "continuation b = unat b - 128"

fun utf8_decode :: "byte list \<Rightarrow> nat list option" where
  "utf8_decode [] = Some []"
| "utf8_decode (b0 # bs) =
     (if b0 \<le> 0x7F then map_option ((#) (unat b0)) (utf8_decode bs)
      else if 0xC2 \<le> b0 \<and> b0 \<le> 0xDF then
        (case bs of
           b1 # r \<Rightarrow>
             if 0x80 \<le> b1 \<and> b1 \<le> 0xBF
             then map_option ((#) ((unat b0 - 192) * 64 + continuation b1)) (utf8_decode r)
             else None
         | _ \<Rightarrow> None)
      else if 0xE0 \<le> b0 \<and> b0 \<le> 0xEF then
        (case bs of
           b1 # b2 # r \<Rightarrow>
             if (if b0 = 0xE0 then 0xA0 else 0x80) \<le> b1 \<and> b1 \<le> (if b0 = 0xED then 0x9F else 0xBF)
                \<and> 0x80 \<le> b2 \<and> b2 \<le> 0xBF
             then map_option
                    ((#) ((unat b0 - 224) * 4096 + continuation b1 * 64 + continuation b2))
                    (utf8_decode r)
             else None
         | _ \<Rightarrow> None)
      else if 0xF0 \<le> b0 \<and> b0 \<le> 0xF4 then
        (case bs of
           b1 # b2 # b3 # r \<Rightarrow>
             if (if b0 = 0xF0 then 0x90 else 0x80) \<le> b1 \<and> b1 \<le> (if b0 = 0xF4 then 0x8F else 0xBF)
                \<and> 0x80 \<le> b2 \<and> b2 \<le> 0xBF \<and> 0x80 \<le> b3 \<and> b3 \<le> 0xBF
             then map_option
                    ((#) ((unat b0 - 240) * 262144 + continuation b1 * 4096
                          + continuation b2 * 64 + continuation b3))
                    (utf8_decode r)
             else None
         | _ \<Rightarrow> None)
      else None)"

text \<open>The bytes \<open>b'zip'\<close>.\<close>

definition zip_bytes :: "byte list" where
  "zip_bytes = [0x7A, 0x69, 0x70]"

text \<open>
  What \<open>netman.get(req)\<close> ends with, as a \<open>QNetworkReply\<close>: the status code (the Qt
  attribute is \<open>None\<close> when no response was obtained), the declared content type if any,
  the body and \<open>errorString()\<close>; and the text that the requests library makes of the body.
\<close>

record response =
  status :: "int option"
  content_type :: "byte list option"
  body :: "byte list"
  errorString :: string
  response_text :: string

text \<open>
  A \<open>requests.Response\<close>: \<open>status_code\<close>, \<open>headers.get('content-type')\<close>, \<open>content\<close>
  and \<open>text\<close>.
\<close>

record requests_response =
  status_code :: int
  content_type_header :: "byte list option"
  content :: "byte list"
  r_text :: string

text \<open>\<open>self.data\<close>: decoded text (code points) or the raw bytes.\<close>

datatype payload = Text "nat list" | Binary "byte list"

text \<open>The fields of \<open>Downloader\<close>, and \<open>Downloader.__init__(url, headers)\<close>.\<close>

record downloader =
  url :: string
  headers :: "(string \<times> string) list"
  data :: "payload option"
  ret_code :: "int option"
  error_string :: string

definition init :: "string \<Rightarrow> (string \<times> string) list option \<Rightarrow> downloader" where
  "init u hs = \<lparr>url = u, headers = (case hs of None \<Rightarrow> [] | Some h \<Rightarrow> h), data = None,
     ret_code = None, error_string = []\<rparr>"



text \<open>\<open>Downloader.ok\<close>.\<close>

definition ok :: "downloader \<Rightarrow> bool" where
  "ok d = (ret_code d = Some 200)"

text \<open>
  What a download acts on besides the downloader: the setting
  \<open>/qgis/networkAndProxy/userAgent\<close> of \<open>QSettings\<close>, the calls of \<open>netman.get\<close> and
  of \<open>requests.get\<close>, the calls of \<open>sleep\<close> in order, and the removals of the URL from
  the cache. The network is a function from the number of a call of \<open>netman.get\<close> to
  the reply it ends with.
\<close>

record world =
  user_agent :: "string option"
  gets :: nat
  sleeps :: "nat list"
  cache_removals :: nat

text \<open>
  The exceptions that the two \<open>download\<close> methods and \<open>sleep\<close> raise themselves, and
  any other, by the name of its class.
\<close>

datatype py_error = IndexError | ValueError | UnicodeDecodeError | TypeError | OtherError string

text \<open>
  An entry of \<open>retry_interval\<close>, as far as \<open>sleep(t)\<close> looks at it: a number of
  seconds (the default schedule is \<open>range(5, 30, 5)\<close>), a negative number (\<open>sleep\<close> raises \<open>ValueError\<close>), or a value that is not a
  number (\<open>sleep\<close> raises \<open>TypeError\<close>). \<open>sleep\<close> gives the exception or the world
  after the wait.
\<close>

datatype wait = Seconds nat | Negative | NotANumber

definition sleep :: "wait \<Rightarrow> world \<Rightarrow> py_error + world" where
  "sleep t w =
     (case t of
        Seconds n \<Rightarrow> Inr (w\<lparr>sleeps := sleeps w @ [n]\<rparr>)
      | Negative \<Rightarrow> Inl ValueError
      | NotANumber \<Rightarrow> Inl TypeError)"

text \<open>The loop \<open>for k, v in self.headers.items()\<close> of \<open>DownloaderQGIS.download\<close>.\<close>

fun set_headers :: "(string \<times> string) list \<Rightarrow> string option \<Rightarrow> world \<Rightarrow> string option \<times> world" where
  "set_headers [] old_user_agent w = (old_user_agent, w)"
| "set_headers ((k, v) # hs) old_user_agent w =
     (if k = ''User-Agent''
      then set_headers hs
             (if user_agent w \<noteq> None then user_agent w else old_user_agent)
             (w\<lparr>user_agent := Some v\<rparr>)
      else set_headers hs old_user_agent w)"

text \<open>
  \<open>if old_user_agent: setValue(...) else: remove(...)\<close>; \<open>None\<close> and the empty string are
  false.
\<close>

definition restore_user_agent :: "string option \<Rightarrow> world \<Rightarrow> world" where
  "restore_user_agent old_user_agent w =
     (if old_user_agent \<noteq> None \<and> old_user_agent \<noteq> Some []
      then w\<lparr>user_agent := old_user_agent\<rparr>
      else w\<lparr>user_agent := None\<rparr>)"

text \<open>\<open>retry_interval[try_count]\<close>; \<open>None\<close> is \<open>IndexError\<close>.\<close>

definition index :: "'a list \<Rightarrow> int \<Rightarrow> 'a option" where
  "index xs i =
     (let n = int (length xs); j = (if i < 0 then n + i else i)
      in if 0 \<le> j \<and> j < n then Some (xs ! nat j) else None)"

text \<open>
  The loop \<open>while True\<close> of \<open>DownloaderQGIS.download\<close>, entered with the value of
  \<open>try_count\<close> before the increment. It gives the exception raised, if any, the last reply,
  \<open>data\<close>, the downloader and the world.
\<close>

function qgis_loop :: "(nat \<Rightarrow> response) \<Rightarrow> int \<Rightarrow> wait list \<Rightarrow> (byte list \<Rightarrow> bool) option
    \<Rightarrow> string option \<Rightarrow> int \<Rightarrow> byte list \<Rightarrow> downloader \<Rightarrow> world
    \<Rightarrow> py_error option \<times> response \<times> byte list \<times> downloader \<times> world" where
  "qgis_loop net retry_count retry_interval validator old_user_agent try_count0 data0 d0 w0 =
     (let try_count = try_count0 + 1;
          reply = net (gets w0);
          w = restore_user_agent old_user_agent (w0\<lparr>gets := gets w0 + 1\<rparr>);
          d = d0\<lparr>ret_code := status reply\<rparr>;
          data1 = (if ret_code d = Some 200 then body reply else data0)
      in if ret_code d \<noteq> Some 200 then
           (if try_count < retry_count then
              (case index retry_interval try_count of
                 None \<Rightarrow> (Some IndexError, reply, data1, d, w)
               | Some t \<Rightarrow>
                   (case sleep t w of
                      Inl x \<Rightarrow> (Some x, reply, data1, d, w)
                    | Inr w2 \<Rightarrow>
                        qgis_loop net retry_count retry_interval validator old_user_agent
                          try_count data1 d w2))
            else (None, reply, data1, d\<lparr>error_string := errorString reply\<rparr>, w))
         else if (case validator of None \<Rightarrow> False | Some v \<Rightarrow> \<not> v data1) then
           (if try_count < retry_count then
              (case index retry_interval try_count of
                 None \<Rightarrow> (Some IndexError, reply, data1, d, w)
               | Some t \<Rightarrow>
                   (case sleep t w of
                      Inl x \<Rightarrow> (Some x, reply, data1, d, w)
                    | Inr w2 \<Rightarrow>
                        qgis_loop net retry_count retry_interval validator old_user_agent
                          try_count data1 d (w2\<lparr>cache_removals := cache_removals w2 + 1\<rparr>)))
            else (None, reply, data1,
                  d\<lparr>ret_code := None,
                    error_string := ''Downloaded data is invalid or incomplete.''\<rparr>, w))
         else (None, reply, data1, d, w))"
  by pat_completeness auto
termination
  by (relation "measure (\<lambda>(net, retry_count, retry_interval, validator, old_user_agent,
        try_count0, rest). nat (retry_count - try_count0))") auto

text \<open>
  \<open>DownloaderQGIS.download(retry_count, retry_interval, validator)\<close>: the exception that
  leaves it, if any, the downloader and the world. \<open>reply.rawHeader\<close> of an absent header
  is empty.
\<close>

definition download_qgis :: "(nat \<Rightarrow> response) \<Rightarrow> int \<Rightarrow> wait list \<Rightarrow> (byte list \<Rightarrow> bool) option
    \<Rightarrow> downloader \<Rightarrow> world \<Rightarrow> py_error option \<times> downloader \<times> world" where
  "download_qgis net retry_count retry_interval validator d w =
     (case set_headers (headers d) None w of
        (old_user_agent, w1) \<Rightarrow>
          (case qgis_loop net retry_count retry_interval validator old_user_agent (- 1) [] d w1 of
             (Some x, reply, data1, d', w') \<Rightarrow> (Some x, d', w')
           | (None, reply, data1, d', w') \<Rightarrow>
               if error_string d' \<noteq> [] then (None, d', w')
               else if \<not> sublist zip_bytes (case content_type reply of None \<Rightarrow> [] | Some c \<Rightarrow> c)
               then (case utf8_decode data1 of
                       None \<Rightarrow> (Some UnicodeDecodeError, d', w')
                     | Some s \<Rightarrow> (None, d'\<lparr>data := Some (Text s)\<rparr>, w'))
               else (None, d'\<lparr>data := Some (Binary data1)\<rparr>, w')))"

text \<open>\<open>Response.ok\<close> of the requests library: no status from 400 to 599.\<close>

definition response_ok :: "int \<Rightarrow> bool" where
  "response_ok code = (\<not> (400 \<le> code \<and> code < 600))"

text \<open>
  \<open>DownloaderRequests.download()\<close>. The function \<open>requests.get\<close> is the library's:
  \<open>get k\<close> is what its call numbered \<open>k\<close> does. It raises (a network-layer error, a URL
  it refuses, too many redirects), or it returns the response it ends with, after the
  redirects it has followed. \<open>r.content\<close> is always \<open>bytes\<close>; \<open>'zip' not in None\<close> is a
  \<open>TypeError\<close>.
\<close>

definition download_requests :: "(nat \<Rightarrow> py_error + requests_response) \<Rightarrow> downloader \<Rightarrow> world
    \<Rightarrow> py_error option \<times> downloader \<times> world" where
  "download_requests get d w =
     (let w' = w\<lparr>gets := gets w + 1\<rparr>
      in case get (gets w) of
           Inl x \<Rightarrow> (Some x, d, w')
         | Inr r \<Rightarrow>
             (let d1 = d\<lparr>ret_code := Some (status_code r)\<rparr>
              in if \<not> response_ok (status_code r) then (None, d1\<lparr>error_string := r_text r\<rparr>, w')
                 else (case content_type_header r of
                         None \<Rightarrow> (Some TypeError, d1, w')
                       | Some c \<Rightarrow>
                           if \<not> sublist zip_bytes c
                           then (case utf8_decode (content r) of
                                   None \<Rightarrow> (Some UnicodeDecodeError, d1, w')
                                 | Some s \<Rightarrow> (None, d1\<lparr>data := Some (Text s)\<rparr>, w'))
                           else (None, d1\<lparr>data := Some (Binary (content r))\<rparr>, w'))))"


definition exhausted :: "response \<Rightarrow> downloader \<Rightarrow> downloader" where
  "exhausted r d =
     (if status r = Some 200
      then d\<lparr>ret_code := None, error_string := ''Downloaded data is invalid or incomplete.''\<rparr>
      else d\<lparr>ret_code := status r, error_string := errorString r\<rparr>)"


text \<open>
  A \<open>requests.get\<close> that sends one request over a network and returns its response as
  it is, and raises \<open>ConnectionError\<close> when there is none.
\<close>

definition requests_over :: "(nat \<Rightarrow> response) \<Rightarrow> nat \<Rightarrow> py_error + requests_response" where
  "requests_over net k =
     (case status (net k) of
        None \<Rightarrow> Inl (OtherError ''ConnectionError'')
      | Some c \<Rightarrow>
          Inr \<lparr>status_code = c, content_type_header = content_type (net k), content = body (net k),
               r_text = response_text (net k)\<rparr>)"

section \<open>Concrete inputs\<close>

text \<open>
  An upper-casing function for the examples: Python's \<open>str.upper\<close> on ASCII text.
\<close>

definition ascii_upper :: "str \<Rightarrow> str" where
  "ascii_upper s = map (\<lambda>c. if 97 \<le> c \<and> c \<le> 122 then c - 32 else c) s"


text \<open>
  Three responses of content type \<open>text\<close> (a 200 and a 201 with body \<open>ok\<close>, a 500 with
  body \<open>no\<close>), five networks (one never gives a response), a validator that rejects
  everything, and two worlds.
\<close>

definition reply_200 :: response where
  "reply_200 = \<lparr>status = Some 200, content_type = Some [0x74, 0x65, 0x78, 0x74], body = [0x6F, 0x6B],
     errorString = ''Unknown error'', response_text = ''ok''\<rparr>"

definition reply_500 :: response where
  "reply_500 = \<lparr>status = Some 500, content_type = Some [0x74, 0x65, 0x78, 0x74], body = [0x6E, 0x6F],
     errorString = ''Internal Server Error'', response_text = ''no''\<rparr>"



definition always_200 :: "nat \<Rightarrow> response" where
  "always_200 i = reply_200"


definition always_500 :: "nat \<Rightarrow> response" where
  "always_500 i = reply_500"



definition world0 :: world where
  "world0 = \<lparr>user_agent = None, gets = 0, sleeps = [], cache_removals = 0\<rparr>"

definition world_with_agent :: world where
  "world_with_agent = \<lparr>user_agent = Some ''Mozilla/5.0'', gets = 0, sleeps = [], cache_removals = 0\<rparr>"

text \<open>
  Three reports: one with twelve lines that both keyword tests accept, one with three, one
  whose second read fails.
\<close>

definition lines_12 :: "rline list" where
  "lines_12 =
     [RLine (cps ''  EPA SWMM 5.2''), RLine [],
      RLine (cps ''  WARNING 01: a''), RLine (cps ''  WARNING 02: b''), RLine (cps ''  WARNING 03: c''),
      RLine (cps ''  WARNING 04: d''), RLine (cps ''  ERROR 105: e''), RLine (cps ''  ERROR 106: f''),
      RLine (cps '' ''), RLine (cps ''  Warning 07: g''), RLine (cps ''  warning 08: h''), RLine (cps ''  WARNING 09: i''),
      RLine (cps ''  WARNING 10: j''), RLine (cps ''  ERROR 111: k''), RLine (cps ''  Element Count''),
      RLine (cps ''  ERROR 112: l''), RLine (cps ''  Analysis ended'')]"

definition lines_3 :: "rline list" where
  "lines_3 =
     [RLine (cps ''  EPA SWMM 5.2''), RLine (cps ''  WARNING 01: a''), RLine [], RLine (cps ''  ERROR 105: e''),
      RLine (cps ''  Element Count''), RLine (cps ''  warning 08: h'')]"

definition lines_broken :: "rline list" where
  "lines_broken = [RLine (cps ''  WARNING 01: a''), RFail (Exc (cps ''Input/output error'') [])]"

text \<open>
  Children: one that prints \<open>A\<close>, an empty line and \<open>B\<close>; one that prints \<open>A\<close> and
  exits with code 2; one whose second line cannot be decoded; one that exits without a
  line; one that stays silent and alive. A cancellation flag that is always set.
\<close>

definition three_lines :: child where
  "three_lines = \<lparr>stdout = (\<lambda>i. if i = 0 then Line (cps ''A'') else if i = 1 then Line []
      else if i = 2 then Line (cps ''B'') else EOF), wait = (\<lambda>t. if t then - 15 else 0)\<rparr>"

definition failing_child :: child where
  "failing_child = \<lparr>stdout = (\<lambda>i. if i = 0 then Line (cps ''A'') else EOF), wait = (\<lambda>t. if t then - 15 else 2)\<rparr>"

definition garbled_child :: child where
  "garbled_child = \<lparr>stdout = (\<lambda>i. if i = 0 then Line (cps ''A'') else ReadError (Exc (cps ''invalid start byte'') [])),
     wait = (\<lambda>t. 0)\<rparr>"

definition silent_child :: child where
  "silent_child = \<lparr>stdout = (\<lambda>i. EOF), wait = (\<lambda>t. if t then - 15 else 0)\<rparr>"

definition hanging_child :: child where
  "hanging_child = \<lparr>stdout = (\<lambda>i. Blocks), wait = (\<lambda>t. if t then - 15 else 0)\<rparr>"

definition always_canceled :: "nat \<Rightarrow> bool" where
  "always_canceled k = True"





section \<open>Properties of the downloader\<close>

declare qgis_loop.simps [simp del]




lemma exhausted_ret_code [simp]: "exhausted r (d\<lparr>ret_code := rc\<rparr>) = exhausted r d"
  by (simp add: exhausted_def)

lemma user_agent_restore [simp]:
  "user_agent (restore_user_agent old w) = (if old \<noteq> None \<and> old \<noteq> Some [] then old else None)"
  by (simp add: restore_user_agent_def)

lemma gets_restore [simp]: "gets (restore_user_agent old w) = gets w"
  by (simp add: restore_user_agent_def)

lemma sleeps_restore [simp]: "sleeps (restore_user_agent old w) = sleeps w"
  by (simp add: restore_user_agent_def)


lemma qgis_loop_user_agent:
  "user_agent (snd (snd (snd (snd
      (qgis_loop net retry_count retry_interval validator old try_count0 data0 d0 w0))))) =
   (if old \<noteq> None \<and> old \<noteq> Some [] then old else None)"
proof (induction net retry_count retry_interval validator old try_count0 data0 d0 w0
    rule: qgis_loop.induct)
  case (1 net retry_count retry_interval validator old try_count0 data0 d0 w0)
  show ?case
    by (subst qgis_loop.simps) (use 1 in \<open>auto simp: Let_def split: option.splits if_splits sum.splits\<close>)
qed

lemma qgis_loop_frame:
  "(let d' = fst (snd (snd (snd
      (qgis_loop net retry_count retry_interval validator old try_count0 data0 d0 w0))))
    in url d' = url d0 \<and> headers d' = headers d0 \<and> data d' = data d0 \<and>
       (ret_code d' = Some 200 \<longrightarrow> error_string d' = error_string d0))"
proof (induction net retry_count retry_interval validator old try_count0 data0 d0 w0
    rule: qgis_loop.induct)
  case (1 net retry_count retry_interval validator old try_count0 data0 d0 w0)
  show ?case
    by (subst qgis_loop.simps) (use 1 in \<open>auto simp: Let_def split: option.splits if_splits sum.splits\<close>)
qed


lemma set_headers_old_none:
  "user_agent w = None \<Longrightarrow> distinct (map fst hs) \<Longrightarrow> fst (set_headers hs None w) = None"
proof (induction hs arbitrary: w)
  case Nil
  then show ?case by simp
next
  case (Cons h hs)
  obtain k v where h: "h = (k, v)" by (cases h)
  show ?case
  proof (cases "k = ''User-Agent''")
    case False
    with Cons h show ?thesis by simp
  next
    case True
    have rest: "\<And>old w'. fst (set_headers hs old w') = old"
    proof -
      fix old w'
      from Cons.prems True h have "''User-Agent'' \<notin> fst ` set hs" by auto
      then show "fst (set_headers hs old w') = old"
        by (induction hs old w' rule: set_headers.induct) auto
    qed
    from True h Cons.prems show ?thesis by (simp add: rest)
  qed
qed

lemma set_headers_no_user_agent:
  "''User-Agent'' \<notin> fst ` set hs \<Longrightarrow> set_headers hs old w = (old, w)"
  by (induction hs old w rule: set_headers.induct) auto

lemma download_qgis_user_agent:
  "user_agent (snd (snd (download_qgis net retry_count retry_interval validator d w))) =
   (let old = fst (set_headers (headers d) None w)
    in if old \<noteq> None \<and> old \<noteq> Some [] then old else None)"
proof -
  obtain old w1 where sh: "set_headers (headers d) None w = (old, w1)" by (cases "set_headers (headers d) None w")
  obtain x reply data1 d' w' where
    ql: "qgis_loop net retry_count retry_interval validator old (- 1) [] d w1 = (x, reply, data1, d', w')"
    by (metis prod_cases5)
  from qgis_loop_user_agent[of net retry_count retry_interval validator old "- 1" "[]" d w1] ql
  have "user_agent w' = (if old \<noteq> None \<and> old \<noteq> Some [] then old else None)" by simp
  then show ?thesis
    by (simp add: download_qgis_def sh ql Let_def split: option.splits)
qed

lemma set_headers_old_some:
  "user_agent w = Some a \<Longrightarrow> ''User-Agent'' \<in> fst ` set hs \<Longrightarrow> distinct (map fst hs)
   \<Longrightarrow> fst (set_headers hs old w) = Some a"
proof (induction hs arbitrary: old w)
  case Nil
  then show ?case by simp
next
  case (Cons h hs)
  obtain k v where h: "h = (k, v)" by (cases h)
  show ?case
  proof (cases "k = ''User-Agent''")
    case False
    with Cons h show ?thesis by auto
  next
    case True
    from Cons.prems True h have "''User-Agent'' \<notin> fst ` set hs" by auto
    then have "set_headers hs (Some a) (w\<lparr>user_agent := Some v\<rparr>) = (Some a, w\<lparr>user_agent := Some v\<rparr>)"
      by (rule set_headers_no_user_agent)
    with True h Cons.prems show ?thesis by simp
  qed
qed

lemma user_agent_absent_stays_absent:
  "user_agent w = None \<Longrightarrow> distinct (map fst (headers d))
   \<Longrightarrow> user_agent (snd (snd (download_qgis net retry_count retry_interval validator d w))) = None"
  by (simp add: download_qgis_user_agent set_headers_old_none)

lemma user_agent_restored_with_header:
  "user_agent w = Some a \<Longrightarrow> a \<noteq> [] \<Longrightarrow> ''User-Agent'' \<in> fst ` set (headers d)
   \<Longrightarrow> distinct (map fst (headers d))
   \<Longrightarrow> user_agent (snd (snd (download_qgis net retry_count retry_interval validator d w))) = Some a"
  by (simp add: download_qgis_user_agent set_headers_old_some)

lemma user_agent_removed_when_no_header:
  "''User-Agent'' \<notin> fst ` set (headers d)
   \<Longrightarrow> user_agent (snd (snd (download_qgis net retry_count retry_interval validator d w))) = None"
  by (simp add: download_qgis_user_agent set_headers_no_user_agent)






text \<open>
  Claim C6. After construction and one call of \<open>download\<close>, on either transport and
  whatever the network answers (also when the call raises), the downloader is ok if and
  only if its status code is 200 and its error string is empty.
\<close>

theorem ok_iff_status_200_and_no_error:
  "(let d' = fst (snd (download_qgis net retry_count retry_interval validator (init u hs) w))
    in ok d' = (ret_code d' = Some 200 \<and> error_string d' = []))
   \<and> (let d' = fst (snd (download_requests get (init u hs) w))
    in ok d' = (ret_code d' = Some 200 \<and> error_string d' = []))"
proof
  let ?d = "init u hs"
  obtain old w1 where sh: "set_headers (headers ?d) None w = (old, w1)" by (cases "set_headers (headers ?d) None w")
  obtain x reply data1 d' w' where
    ql: "qgis_loop net retry_count retry_interval validator old (- 1) [] ?d w1 = (x, reply, data1, d', w')"
    by (metis prod_cases5)
  from qgis_loop_frame[of net retry_count retry_interval validator old "- 1" "[]" ?d w1] ql
  have fr: "ret_code d' = Some 200 \<longrightarrow> error_string d' = []" by (simp add: init_def)
  show "let d' = fst (snd (download_qgis net retry_count retry_interval validator ?d w))
    in ok d' = (ret_code d' = Some 200 \<and> error_string d' = [])"
    using fr by (auto simp: download_qgis_def sh ql ok_def Let_def split: option.splits)
next
  show "let d' = fst (snd (download_requests get (init u hs) w))
    in ok d' = (ret_code d' = Some 200 \<and> error_string d' = [])"
    by (auto simp: download_requests_def ok_def Let_def init_def response_ok_def
        split: option.splits sum.splits)
qed

theorem ok_iff_status_200_and_no_error_witness:
  "ok (fst (snd (download_qgis always_200 2 (map Seconds [5, 10]) None (init ''http://x'' None) world0)))
   \<and> \<not> ok (fst (snd (download_requests (requests_over always_500) (init ''http://x'' None) world0)))"
  using ok_iff_status_200_and_no_error[of always_200 2 "map Seconds [5, 10]" None "''http://x''" None world0
      "requests_over always_500"]
  by (simp add: Let_def) code_simp

text \<open>
  Claim C5. A download on the QGIS transport without a \<open>User-Agent\<close> header, in a process
  whose user-agent setting is \<open>Mozilla/5.0\<close>, succeeds and leaves the setting absent: the
  prior value is not restored.
\<close>

theorem user_agent_removed_without_header:
  "download_qgis always_200 5 (map Seconds [5, 10, 15, 20, 25]) None (init ''http://x'' None) world_with_agent =
     (None, \<lparr>url = ''http://x'', headers = [], data = Some (Text [111, 107]), ret_code = Some 200,
        error_string = []\<rparr>, \<lparr>user_agent = None, gets = 1, sleeps = [], cache_removals = 0\<rparr>)"
  by code_simp










section \<open>Properties of the report scan\<close>

lemma diagnostics_Nil [simp]: "diagnostics upper kw [] = []"
  by (simp add: diagnostics_def)

lemma diagnostics_Cons:
  "diagnostics upper kw (l # ls) =
     (if strip l \<noteq> [] \<and> kw (upper (strip l)) then strip l # diagnostics upper kw ls else diagnostics upper kw ls)"
  by (simp add: diagnostics_def)

lemma msg_log_logMessage [simp]: "msg_log (logMessage m lv u) = msg_log u @ [(lv, m)]"
  by (simp add: logMessage_def)

lemma msg_log_feedback_pushWarning [simp]: "msg_log (with_feedback fb (pushWarning m) u) = msg_log u"
  by (simp add: with_feedback_def pushWarning_def)

lemma fb_warnings_logMessage [simp]: "fb_warnings (logMessage m lv u) = fb_warnings u"
  by (simp add: logMessage_def)

lemma fb_warnings_feedback_pushWarning [simp]:
  "fb_warnings (with_feedback fb (pushWarning m) u) = fb_warnings u @ (if fb then [m] else [])"
  by (simp add: with_feedback_def pushWarning_def)

lemma scan_lines_log:
  "c \<le> 10 \<Longrightarrow> msg_log (snd (snd (scan_lines upper kw fb rs c n u))) =
     msg_log u @ map (Pair Warning) (take (10 - c) (diagnostics upper kw (readable rs)))"
proof (induction rs arbitrary: c n u)
  case Nil
  then show ?case by simp
next
  case (Cons r rs)
  show ?case
  proof (cases r)
    case (RFail e)
    then show ?thesis by simp
  next
    case (RLine line)
    show ?thesis
    proof (cases "strip line \<noteq> [] \<and> kw (upper (strip line))")
      case False
      then show ?thesis using Cons RLine by (auto simp: diagnostics_Cons Let_def)
    next
      case True
      show ?thesis
      proof (cases "c = 10")
        case True
        then show ?thesis using RLine \<open>strip line \<noteq> [] \<and> kw (upper (strip line))\<close>
          by (simp add: max_rpt_messages_def)
      next
        case False
        with Cons.prems have lt: "c < 10" by simp
        then have "Suc c \<le> 10" by simp
        from Cons.IH[OF this] lt True RLine show ?thesis
          by (simp add: diagnostics_Cons max_rpt_messages_def take_Cons' Let_def)
      qed
    qed
  qed
qed


lemma scan_lines_fb_warnings:
  "c \<le> 10 \<Longrightarrow> fb_warnings (snd (snd (scan_lines upper kw fb rs c n u))) =
     fb_warnings u @ (if fb then take (10 - c) (diagnostics upper kw (readable rs)) else [])"
proof (induction rs arbitrary: c n u)
  case Nil
  then show ?case by simp
next
  case (Cons r rs)
  show ?case
  proof (cases r)
    case (RFail e)
    then show ?thesis by simp
  next
    case (RLine line)
    show ?thesis
    proof (cases "strip line \<noteq> [] \<and> kw (upper (strip line))")
      case False
      then show ?thesis using Cons RLine by (auto simp: diagnostics_Cons Let_def)
    next
      case True
      show ?thesis
      proof (cases "c = 10")
        case True
        then show ?thesis using RLine \<open>strip line \<noteq> [] \<and> kw (upper (strip line))\<close>
          by (simp add: max_rpt_messages_def)
      next
        case False
        with Cons.prems have lt: "c < 10" by simp
        then have "Suc c \<le> 10" by simp
        from Cons.IH[OF this] lt True RLine show ?thesis
          by (simp add: diagnostics_Cons max_rpt_messages_def take_Cons' Let_def)
      qed
    qed
  qed
qed

lemma scan_lines_result:
  "c \<le> 10 \<Longrightarrow> fst (scan_lines upper kw fb rs c n u) =
     (if 10 - c < length (diagnostics upper kw (readable rs)) then Inr True
      else case first_fail rs of None \<Rightarrow> Inr False | Some e \<Rightarrow> Inl e)"
proof (induction rs arbitrary: c n u)
  case Nil
  then show ?case by simp
next
  case (Cons r rs)
  show ?case
  proof (cases r)
    case (RFail e)
    then show ?thesis by simp
  next
    case (RLine line)
    show ?thesis
    proof (cases "strip line \<noteq> [] \<and> kw (upper (strip line))")
      case False
      then show ?thesis using Cons RLine by (auto simp: diagnostics_Cons Let_def)
    next
      case True
      show ?thesis
      proof (cases "c = 10")
        case True
        then show ?thesis using RLine \<open>strip line \<noteq> [] \<and> kw (upper (strip line))\<close>
          by (simp add: max_rpt_messages_def diagnostics_Cons)
      next
        case False
        with Cons.prems have lt: "c < 10" by simp
        then have "Suc c \<le> 10" by simp
        from Cons.IH[OF this] lt True RLine show ?thesis
          by (auto simp add: diagnostics_Cons max_rpt_messages_def Let_def)
      qed
    qed
  qed
qed

lemma scan_lines_read_all:
  "c \<le> 10 \<Longrightarrow> \<not> 10 - c < length (diagnostics upper kw (readable rs)) \<Longrightarrow>
     fst (snd (scan_lines upper kw fb rs c n u)) = n + length (readable rs)"
proof (induction rs arbitrary: c n u)
  case Nil
  then show ?case by simp
next
  case (Cons r rs)
  show ?case
  proof (cases r)
    case (RFail e)
    then show ?thesis by simp
  next
    case (RLine line)
    show ?thesis
    proof (cases "strip line \<noteq> [] \<and> kw (upper (strip line))")
      case False
      then show ?thesis using Cons RLine by (auto simp: diagnostics_Cons Let_def)
    next
      case True
      with Cons.prems RLine have lt: "c < 10" by (auto simp: diagnostics_Cons)
      then have "Suc c \<le> 10" by simp
      from Cons.IH[OF this] Cons.prems lt True RLine show ?thesis
        by (auto simp add: diagnostics_Cons max_rpt_messages_def Let_def)
    qed
  qed
qed


lemma scan_lines_read_truncated:
  "c \<le> 10 \<Longrightarrow> 10 - c < length (diagnostics upper kw (readable rs)) \<Longrightarrow>
     (\<exists>k. fst (snd (scan_lines upper kw fb rs c n u)) = n + Suc k \<and> Suc k \<le> length (readable rs) \<and>
          length (diagnostics upper kw (take k (readable rs))) = 10 - c \<and>
          length (diagnostics upper kw (take (Suc k) (readable rs))) = 11 - c)"
proof (induction rs arbitrary: c n u)
  case Nil
  then show ?case by simp
next
  case (Cons r rs)
  show ?case
  proof (cases r)
    case (RFail e)
    then show ?thesis using Cons.prems by simp
  next
    case (RLine line)
    show ?thesis
    proof (cases "strip line \<noteq> [] \<and> kw (upper (strip line))")
      case False
      with Cons.prems RLine have "10 - c < length (diagnostics upper kw (readable rs))"
        by (auto simp: diagnostics_Cons)
      from Cons.IH[OF Cons.prems(1) this, of "Suc n" u] obtain k where
        k: "fst (snd (scan_lines upper kw fb rs c (Suc n) u)) = Suc n + Suc k"
           "Suc k \<le> length (readable rs)"
           "length (diagnostics upper kw (take k (readable rs))) = 10 - c"
           "length (diagnostics upper kw (take (Suc k) (readable rs))) = 11 - c" by blast
      have "fst (snd (scan_lines upper kw fb (r # rs) c n u)) = n + Suc (Suc k)"
        using False RLine k(1) by (auto simp: Let_def)
      moreover have "Suc (Suc k) \<le> length (readable (r # rs))" using RLine k(2) by simp
      moreover have "length (diagnostics upper kw (take (Suc k) (readable (r # rs)))) = 10 - c"
        using RLine False k(3) by (auto simp: diagnostics_Cons)
      moreover have "length (diagnostics upper kw (take (Suc (Suc k)) (readable (r # rs)))) = 11 - c"
        using RLine False k(4) by (auto simp: diagnostics_Cons)
      ultimately show ?thesis by blast
    next
      case True
      show ?thesis
      proof (cases "c = 10")
        case c10: True
        have "fst (snd (scan_lines upper kw fb (r # rs) c n u)) = n + Suc 0"
          using True RLine c10 by (simp add: max_rpt_messages_def)
        moreover have "length (diagnostics upper kw (take (Suc 0) (readable (r # rs)))) = 11 - c"
          using True RLine c10 by (simp add: diagnostics_Cons)
        moreover have "length (diagnostics upper kw (take 0 (readable (r # rs)))) = 10 - c"
          using c10 by simp
        moreover have "Suc 0 \<le> length (readable (r # rs))" using RLine by simp
        ultimately show ?thesis by blast
      next
        case False
        with Cons.prems have lt: "c < 10" by simp
        then have le: "Suc c \<le> 10" by simp
        have "10 - Suc c < length (diagnostics upper kw (readable rs))"
          using Cons.prems RLine True lt by (auto simp: diagnostics_Cons)
        from Cons.IH[OF le this, of "Suc n"
            "logMessage (strip line) Warning (with_feedback fb (pushWarning (strip line)) u)"]
        obtain k where
          k: "fst (snd (scan_lines upper kw fb rs (Suc c) (Suc n)
                (logMessage (strip line) Warning (with_feedback fb (pushWarning (strip line)) u))))
              = Suc n + Suc k" "Suc k \<le> length (readable rs)"
           "length (diagnostics upper kw (take k (readable rs))) = 10 - Suc c"
           "length (diagnostics upper kw (take (Suc k) (readable rs))) = 11 - Suc c" by blast
        have "fst (snd (scan_lines upper kw fb (r # rs) c n u)) = n + Suc (Suc k)"
          using True RLine k(1) lt by (auto simp: Let_def max_rpt_messages_def)
        moreover have "Suc (Suc k) \<le> length (readable (r # rs))" using RLine k(2) by simp
        moreover have "length (diagnostics upper kw (take (Suc k) (readable (r # rs)))) = 10 - c"
          using RLine True k(3) lt by (auto simp: diagnostics_Cons)
        moreover have "length (diagnostics upper kw (take (Suc (Suc k)) (readable (r # rs)))) = 11 - c"
          using RLine True k(4) lt by (auto simp: diagnostics_Cons)
        ultimately show ?thesis by blast
      qed
    qed
  qed
qed


lemma scan_with_log:
  "msg_log (snd (scan_with upper kw fb (Opened rs) u)) =
     msg_log u @ map (Pair Warning)
       (take 10 (diagnostics upper kw (readable rs)) @
        (if 10 < length (diagnostics upper kw (readable rs)) then [cps ''...'']
         else case first_fail rs of None \<Rightarrow> []
              | Some e \<Rightarrow> [cps ''Unable to scan report for warnings/errors: '' @ str_of e]))"
proof -
  obtain r n u' where sl: "scan_lines upper kw fb rs 0 0 u = (r, n, u')" by (cases "scan_lines upper kw fb rs 0 0 u")
  from scan_lines_log[of 0 upper kw fb rs 0 u] sl
  have lg: "msg_log u' = msg_log u @ map (Pair Warning) (take 10 (diagnostics upper kw (readable rs)))" by simp
  from scan_lines_result[of 0 upper kw fb rs 0 u] sl
  have res: "r = (if 10 < length (diagnostics upper kw (readable rs)) then Inr True
      else case first_fail rs of None \<Rightarrow> Inr False | Some e \<Rightarrow> Inl e)" by simp
  show ?thesis
    by (simp add: scan_with_def sl lg res scan_failed_def Let_def split: option.splits)
qed

lemma scan_with_fb_warnings:
  "fb_warnings (snd (scan_with upper kw fb (Opened rs) u)) =
     fb_warnings u @ (if fb then
       take 10 (diagnostics upper kw (readable rs)) @
        (if 10 < length (diagnostics upper kw (readable rs)) then [cps ''...'']
         else case first_fail rs of None \<Rightarrow> []
              | Some e \<Rightarrow> [cps ''Unable to scan report for warnings/errors: '' @ str_of e]) else [])"
proof -
  obtain r n u' where sl: "scan_lines upper kw fb rs 0 0 u = (r, n, u')" by (cases "scan_lines upper kw fb rs 0 0 u")
  from scan_lines_fb_warnings[of 0 upper kw fb rs 0 u] sl
  have lg: "fb_warnings u' = fb_warnings u @ (if fb then take 10 (diagnostics upper kw (readable rs)) else [])" by simp
  from scan_lines_result[of 0 upper kw fb rs 0 u] sl
  have res: "r = (if 10 < length (diagnostics upper kw (readable rs)) then Inr True
      else case first_fail rs of None \<Rightarrow> Inr False | Some e \<Rightarrow> Inl e)" by simp
  show ?thesis
    by (simp add: scan_with_def sl lg res scan_failed_def Let_def split: option.splits)
qed

lemma scan_with_read_all:
  "\<not> 10 < length (diagnostics upper kw (readable rs)) \<Longrightarrow>
     fst (scan_with upper kw fb (Opened rs) u) = length (readable rs)"
proof -
  assume a: "\<not> 10 < length (diagnostics upper kw (readable rs))"
  obtain r n u' where sl: "scan_lines upper kw fb rs 0 0 u = (r, n, u')" by (cases "scan_lines upper kw fb rs 0 0 u")
  from scan_lines_read_all[of 0 upper kw rs fb 0 u] a sl have "n = length (readable rs)" by simp
  then show ?thesis by (simp add: scan_with_def sl split: sum.splits)
qed

lemma scan_with_read_truncated:
  assumes "10 < length (diagnostics upper kw (readable rs))"
  shows "0 < fst (scan_with upper kw fb (Opened rs) u)
     \<and> fst (scan_with upper kw fb (Opened rs) u) \<le> length (readable rs)
     \<and> length (diagnostics upper kw (take (fst (scan_with upper kw fb (Opened rs) u) - 1) (readable rs))) = 10
     \<and> length (diagnostics upper kw (take (fst (scan_with upper kw fb (Opened rs) u)) (readable rs))) = 11"
proof -
  obtain r n u' where sl: "scan_lines upper kw fb rs 0 0 u = (r, n, u')"
    by (cases "scan_lines upper kw fb rs 0 0 u")
  from scan_lines_read_truncated[of 0 upper kw rs fb 0 u] assms sl
  have "0 < n \<and> n \<le> length (readable rs)
      \<and> length (diagnostics upper kw (take (n - 1) (readable rs))) = 10
      \<and> length (diagnostics upper kw (take n (readable rs))) = 11" by auto
  then show ?thesis by (simp add: scan_with_def sl split: sum.splits)
qed

lemma readable_all: "first_fail rs = None \<Longrightarrow> length (readable rs) = length rs"
  by (induction rs rule: first_fail.induct) auto

lemma diagnostics_gpkg:
  "diagnostics upper keyword_gpkg ls = map strip (filter (spec_diagnostic upper) ls)"
  by (induction ls) (simp_all add: diagnostics_Cons spec_diagnostic_def keyword_gpkg_def)

lemma diagnostics_inp:
  "diagnostics upper keyword_inp ls = map strip (filter (spec_diagnostic_loose upper) ls)"
  by (induction ls) (simp_all add: diagnostics_Cons spec_diagnostic_loose_def keyword_inp_def)

lemma scan_with_log_trailer:
  "msg_log (snd (scan_with upper kw fb (Opened rs) u)) =
     msg_log u @ map (Pair Warning)
       (take 10 (diagnostics upper kw (readable rs))
        @ trailer (length (diagnostics upper kw (readable rs))) (first_fail rs))"
  by (simp add: scan_with_log trailer_def)


text \<open>The definitions that evaluate a scan on a literal.\<close>

lemmas str_eval = cps_def strip_def rstrip_def is_space_def ascii_upper_def spec_diagnostic_def
  spec_diagnostic_loose_def keyword_gpkg_def keyword_inp_def sublist_code

text \<open>
  Claim C8. A missing report gives no output. For every report that is opened, the scan
  (with either keyword test, whatever \<open>str.upper\<close> is) gives to the log, and to the
  feedback object when there is one, the first ten diagnostic lines of the part read before
  a failing read, followed by exactly one \<open>...\<close> when there are more than ten, and
  otherwise by one message when a read failed: never more than ten diagnostic lines. When
  there are more than ten (twelve, say), the scan emits the first ten and one \<open>...\<close>, and
  the last line it reads is the eleventh diagnostic line: the lines read hold eleven
  diagnostic lines, the lines read before the last hold ten, and with twelve diagnostic
  lines at least one line is left unread. With three diagnostic lines it emits exactly the
  three, no \<open>...\<close>, and reads every line up to the end or the failing read.
  \<open>scan_report\<close> is \<open>scan_with\<close> with \<open>keyword_gpkg\<close>, \<open>scan_report_inp\<close> is
  \<open>scan_with\<close> with \<open>keyword_inp\<close> and a feedback object.
\<close>

theorem scan_emits_at_most_ten:
  "scan_with upper kw feedback Missing u = (0, u)
   \<and> msg_log (snd (scan_with upper kw feedback (Opened rs) u)) =
     msg_log u @ map (Pair Warning)
       (take 10 (diagnostics upper kw (readable rs)) @
        (if 10 < length (diagnostics upper kw (readable rs)) then [cps ''...'']
         else case first_fail rs of None \<Rightarrow> []
              | Some e \<Rightarrow> [cps ''Unable to scan report for warnings/errors: '' @ str_of e]))
   \<and> fb_warnings (snd (scan_with upper kw feedback (Opened rs) u)) =
     fb_warnings u @ (if feedback then
       take 10 (diagnostics upper kw (readable rs)) @
        (if 10 < length (diagnostics upper kw (readable rs)) then [cps ''...'']
         else case first_fail rs of None \<Rightarrow> []
              | Some e \<Rightarrow> [cps ''Unable to scan report for warnings/errors: '' @ str_of e])
       else [])
   \<and> (10 < length (diagnostics upper kw (readable rs)) \<longrightarrow>
        msg_log (snd (scan_with upper kw feedback (Opened rs) u)) =
          msg_log u @ map (Pair Warning) (take 10 (diagnostics upper kw (readable rs)) @ [cps ''...''])
        \<and> 0 < fst (scan_with upper kw feedback (Opened rs) u)
        \<and> fst (scan_with upper kw feedback (Opened rs) u) \<le> length (readable rs)
        \<and> length (diagnostics upper kw
            (take (fst (scan_with upper kw feedback (Opened rs) u) - 1) (readable rs))) = 10
        \<and> length (diagnostics upper kw
            (take (fst (scan_with upper kw feedback (Opened rs) u)) (readable rs))) = 11)
   \<and> (length (diagnostics upper kw (readable rs)) = 12 \<longrightarrow>
        fst (scan_with upper kw feedback (Opened rs) u) < length (readable rs))
   \<and> (length (diagnostics upper kw (readable rs)) = 3 \<longrightarrow>
        msg_log (snd (scan_with upper kw feedback (Opened rs) u)) =
          msg_log u @ map (Pair Warning) (diagnostics upper kw (readable rs)
            @ (case first_fail rs of None \<Rightarrow> []
               | Some e \<Rightarrow> [cps ''Unable to scan report for warnings/errors: '' @ str_of e]))
        \<and> fst (scan_with upper kw feedback (Opened rs) u) = length (readable rs)
        \<and> (first_fail rs = None \<longrightarrow> fst (scan_with upper kw feedback (Opened rs) u) = length rs))"
proof (intro conjI impI)
  show "scan_with upper kw feedback Missing u = (0, u)"
    by (simp add: scan_with_def)
next
  show "msg_log (snd (scan_with upper kw feedback (Opened rs) u)) =
     msg_log u @ map (Pair Warning)
       (take 10 (diagnostics upper kw (readable rs)) @
        (if 10 < length (diagnostics upper kw (readable rs)) then [cps ''...'']
         else case first_fail rs of None \<Rightarrow> []
              | Some e \<Rightarrow> [cps ''Unable to scan report for warnings/errors: '' @ str_of e]))"
    by (rule scan_with_log)
next
  show "fb_warnings (snd (scan_with upper kw feedback (Opened rs) u)) =
     fb_warnings u @ (if feedback then
       take 10 (diagnostics upper kw (readable rs)) @
        (if 10 < length (diagnostics upper kw (readable rs)) then [cps ''...'']
         else case first_fail rs of None \<Rightarrow> []
              | Some e \<Rightarrow> [cps ''Unable to scan report for warnings/errors: '' @ str_of e])
       else [])"
    by (rule scan_with_fb_warnings)
next
  assume gt: "10 < length (diagnostics upper kw (readable rs))"
  show "msg_log (snd (scan_with upper kw feedback (Opened rs) u)) =
          msg_log u @ map (Pair Warning) (take 10 (diagnostics upper kw (readable rs)) @ [cps ''...''])"
    using gt by (simp add: scan_with_log)
  from scan_with_read_truncated[OF gt, of feedback u]
  show "0 < fst (scan_with upper kw feedback (Opened rs) u)"
    and "fst (scan_with upper kw feedback (Opened rs) u) \<le> length (readable rs)"
    and "length (diagnostics upper kw
            (take (fst (scan_with upper kw feedback (Opened rs) u) - 1) (readable rs))) = 10"
    and "length (diagnostics upper kw
            (take (fst (scan_with upper kw feedback (Opened rs) u)) (readable rs))) = 11"
    by simp_all
next
  assume a: "length (diagnostics upper kw (readable rs)) = 12"
  then have gt: "10 < length (diagnostics upper kw (readable rs))" by simp
  from scan_with_read_truncated[OF gt, of feedback u]
  have le: "fst (scan_with upper kw feedback (Opened rs) u) \<le> length (readable rs)"
    and eleven: "length (diagnostics upper kw
        (take (fst (scan_with upper kw feedback (Opened rs) u)) (readable rs))) = 11"
    by simp_all
  show "fst (scan_with upper kw feedback (Opened rs) u) < length (readable rs)"
  proof (rule ccontr)
    assume "\<not> fst (scan_with upper kw feedback (Opened rs) u) < length (readable rs)"
    with le have "fst (scan_with upper kw feedback (Opened rs) u) = length (readable rs)" by simp
    with eleven a show False by simp
  qed
next
  assume a: "length (diagnostics upper kw (readable rs)) = 3"
  then show "msg_log (snd (scan_with upper kw feedback (Opened rs) u)) =
          msg_log u @ map (Pair Warning) (diagnostics upper kw (readable rs)
            @ (case first_fail rs of None \<Rightarrow> []
               | Some e \<Rightarrow> [cps ''Unable to scan report for warnings/errors: '' @ str_of e]))"
    by (simp add: scan_with_log)
  from a scan_with_read_all[of upper kw rs feedback u]
  show all: "fst (scan_with upper kw feedback (Opened rs) u) = length (readable rs)" by simp
  assume "first_fail rs = None"
  with all readable_all[of rs]
  show "fst (scan_with upper kw feedback (Opened rs) u) = length rs" by simp
qed

theorem scan_emits_at_most_ten_witness:
  "length (diagnostics ascii_upper keyword_gpkg (readable lines_12)) = 12
   \<and> msg_log (snd (scan_report ascii_upper (Opened lines_12) True ui0)) =
       map (Pair Warning) [cps ''WARNING 01: a'', cps ''WARNING 02: b'', cps ''WARNING 03: c'',
         cps ''WARNING 04: d'', cps ''ERROR 105: e'', cps ''ERROR 106: f'', cps ''Warning 07: g'',
         cps ''warning 08: h'', cps ''WARNING 09: i'', cps ''WARNING 10: j'', cps ''...'']
   \<and> fst (scan_report ascii_upper (Opened lines_12) True ui0) < length (readable lines_12)
   \<and> length (diagnostics ascii_upper keyword_gpkg
        (take (fst (scan_report ascii_upper (Opened lines_12) True ui0) - 1) (readable lines_12))) = 10
   \<and> length (diagnostics ascii_upper keyword_gpkg
        (take (fst (scan_report ascii_upper (Opened lines_12) True ui0)) (readable lines_12))) = 11
   \<and> length (diagnostics ascii_upper keyword_inp (readable lines_3)) = 3 \<and> first_fail lines_3 = None
   \<and> msg_log (snd (scan_report_inp ascii_upper (Opened lines_3) ui0)) =
       map (Pair Warning) [cps ''WARNING 01: a'', cps ''ERROR 105: e'', cps ''warning 08: h'']
   \<and> fst (scan_report_inp ascii_upper (Opened lines_3) ui0) = length lines_3"
proof -
  have h12: "length (diagnostics ascii_upper keyword_gpkg (readable lines_12)) = 12"
    by (simp add: str_eval diagnostics_def lines_12_def)
  have t12: "take 10 (diagnostics ascii_upper keyword_gpkg (readable lines_12)) =
      [cps ''WARNING 01: a'', cps ''WARNING 02: b'', cps ''WARNING 03: c'',
         cps ''WARNING 04: d'', cps ''ERROR 105: e'', cps ''ERROR 106: f'', cps ''Warning 07: g'',
         cps ''warning 08: h'', cps ''WARNING 09: i'', cps ''WARNING 10: j'']"
    by (simp add: str_eval diagnostics_def lines_12_def)
  have h3: "length (diagnostics ascii_upper keyword_inp (readable lines_3)) = 3"
    by (simp add: str_eval diagnostics_def lines_3_def)
  have f3: "first_fail lines_3 = None" by (simp add: lines_3_def)
  have d3: "diagnostics ascii_upper keyword_inp (readable lines_3) =
      [cps ''WARNING 01: a'', cps ''ERROR 105: e'', cps ''warning 08: h'']"
    by (simp add: str_eval diagnostics_def lines_3_def)
  from scan_emits_at_most_ten[of ascii_upper keyword_gpkg True ui0 lines_12] h12 t12
  have a: "msg_log (snd (scan_with ascii_upper keyword_gpkg True (Opened lines_12) ui0)) =
       map (Pair Warning) [cps ''WARNING 01: a'', cps ''WARNING 02: b'', cps ''WARNING 03: c'',
         cps ''WARNING 04: d'', cps ''ERROR 105: e'', cps ''ERROR 106: f'', cps ''Warning 07: g'',
         cps ''warning 08: h'', cps ''WARNING 09: i'', cps ''WARNING 10: j'', cps ''...'']
   \<and> fst (scan_with ascii_upper keyword_gpkg True (Opened lines_12) ui0) < length (readable lines_12)
   \<and> length (diagnostics ascii_upper keyword_gpkg
        (take (fst (scan_with ascii_upper keyword_gpkg True (Opened lines_12) ui0) - 1) (readable lines_12))) = 10
   \<and> length (diagnostics ascii_upper keyword_gpkg
        (take (fst (scan_with ascii_upper keyword_gpkg True (Opened lines_12) ui0)) (readable lines_12))) = 11"
    by (simp add: ui0_def)
  from scan_emits_at_most_ten[of ascii_upper keyword_inp True ui0 lines_3] h3 f3 d3
  have b: "msg_log (snd (scan_with ascii_upper keyword_inp True (Opened lines_3) ui0)) =
       map (Pair Warning) [cps ''WARNING 01: a'', cps ''ERROR 105: e'', cps ''warning 08: h'']
   \<and> fst (scan_with ascii_upper keyword_inp True (Opened lines_3) ui0) = length lines_3"
    by (simp add: ui0_def)
  from a b h12 h3 f3 show ?thesis
    by (simp only: scan_report_def scan_report_inp_def)
qed

text \<open>
  Claim C9, as the code has it. Each scan emits, in order and stripped, the first ten of
  the lines it classifies as diagnostic among those read before a failing read, then
  \<open>...\<close> when there were more than ten, else the message of a failed read. The scan of
  \<open>swmm_run_inp_or_gpkg.py\<close> classifies a line as diagnostic exactly when its trimmed
  content is non-empty and, upper-cased, starts with \<open>ERROR\<close> or \<open>WARNING\<close>; the scan
  of \<open>swmm_run_inp.py\<close> exactly when that content contains \<open>ERROR\<close> or \<open>WARNING\<close>.
  Every line the first classifies as diagnostic, the second does too.
\<close>

theorem scans_emit_classified_lines:
  "msg_log (snd (scan_report upper (Opened rs) feedback u)) =
     msg_log u @ map (Pair Warning)
       (take 10 (map strip (filter (spec_diagnostic upper) (readable rs)))
        @ trailer (length (filter (spec_diagnostic upper) (readable rs))) (first_fail rs))
   \<and> msg_log (snd (scan_report_inp upper (Opened rs) u)) =
     msg_log u @ map (Pair Warning)
       (take 10 (map strip (filter (spec_diagnostic_loose upper) (readable rs)))
        @ trailer (length (filter (spec_diagnostic_loose upper) (readable rs))) (first_fail rs))
   \<and> (\<forall>line. spec_diagnostic upper line \<longrightarrow> spec_diagnostic_loose upper line)"
proof (intro conjI allI impI)
  show "msg_log (snd (scan_report upper (Opened rs) feedback u)) =
     msg_log u @ map (Pair Warning)
       (take 10 (map strip (filter (spec_diagnostic upper) (readable rs)))
        @ trailer (length (filter (spec_diagnostic upper) (readable rs))) (first_fail rs))"
    using scan_with_log_trailer[of upper keyword_gpkg feedback rs u]
    by (simp add: scan_report_def diagnostics_gpkg)
next
  show "msg_log (snd (scan_report_inp upper (Opened rs) u)) =
     msg_log u @ map (Pair Warning)
       (take 10 (map strip (filter (spec_diagnostic_loose upper) (readable rs)))
        @ trailer (length (filter (spec_diagnostic_loose upper) (readable rs))) (first_fail rs))"
    using scan_with_log_trailer[of upper keyword_inp True rs u]
    by (simp add: scan_report_inp_def diagnostics_inp)
next
  fix line assume "spec_diagnostic upper line"
  then show "spec_diagnostic_loose upper line"
    by (auto simp: spec_diagnostic_def spec_diagnostic_loose_def dest: prefix_imp_sublist)
qed

theorem scans_emit_classified_lines_witness:
  "spec_diagnostic ascii_upper (cps ''  Warning 04: minimum elevation drop used'')
   \<and> spec_diagnostic_loose ascii_upper (cps ''  Warning 04: minimum elevation drop used'')
   \<and> msg_log (snd (scan_report ascii_upper (Opened lines_broken) True ui0)) =
       [(Warning, cps ''WARNING 01: a''),
        (Warning, cps ''Unable to scan report for warnings/errors: Input/output error'')]"
proof -
  have h: "spec_diagnostic ascii_upper (cps ''  Warning 04: minimum elevation drop used'')"
    by (simp add: str_eval)
  have f: "map strip (filter (spec_diagnostic ascii_upper) (readable lines_broken)) = [cps ''WARNING 01: a'']"
    by (simp add: str_eval lines_broken_def)
  have g: "trailer (length (filter (spec_diagnostic ascii_upper) (readable lines_broken)))
      (first_fail lines_broken) = [cps ''Unable to scan report for warnings/errors: Input/output error'']"
    by (simp add: str_eval lines_broken_def trailer_def)
  note t = scans_emit_classified_lines[of ascii_upper lines_broken True ui0]
  from t h have l: "spec_diagnostic_loose ascii_upper (cps ''  Warning 04: minimum elevation drop used'')"
    by blast
  from t f g have m: "msg_log (snd (scan_report ascii_upper (Opened lines_broken) True ui0)) =
       [(Warning, cps ''WARNING 01: a''),
        (Warning, cps ''Unable to scan report for warnings/errors: Input/output error'')]"
    by (simp add: ui0_def)
  from h l m show ?thesis by simp
qed

text \<open>
  Against claim C9 as stated: a line of the continuity table contains \<open>ERROR\<close> without
  starting with it; the scan of \<open>swmm_run_inp.py\<close> emits it, the other does not.
\<close>

theorem scans_classify_differently_counterexample:
  "\<not> spec_diagnostic ascii_upper (cps ''  Continuity Error (%) ..... 0.000'')
   \<and> msg_log (snd (scan_report_inp ascii_upper
        (Opened [RLine (cps ''  Continuity Error (%) ..... 0.000'')]) ui0)) =
       [(Warning, cps ''Continuity Error (%) ..... 0.000'')]
   \<and> msg_log (snd (scan_report ascii_upper
        (Opened [RLine (cps ''  Continuity Error (%) ..... 0.000'')]) True ui0)) = []"
  by (simp add: str_eval scan_report_def scan_report_inp_def scan_with_def ui0_def
      max_rpt_messages_def logMessage_def with_feedback_def pushWarning_def Let_def)


section \<open>Properties of the run\<close>

lemma read_stdout_line_continue:
  assumes "out (lines_read e) = Line l" and "\<not> is_canceled fb task (polls e)"
  shows "read_stdout out fb task e =
    read_stdout out fb task
      (e\<lparr>lines_read := lines_read e + 1, sink := deliver (fb \<noteq> None) l (sink e),
         polls := polls e + 1\<rparr>)"
  using assms by (subst read_stdout.simps) (simp add: Let_def)

lemma read_stdout_line_cancel:
  assumes "out (lines_read e) = Line l" and "is_canceled fb task (polls e)"
  shows "read_stdout out fb task e =
    Some (None, e\<lparr>lines_read := lines_read e + 1, sink := deliver (fb \<noteq> None) l (sink e),
         polls := polls e + 1, terminated := True\<rparr>)"
  using assms by (subst read_stdout.simps) (simp add: Let_def)

lemma read_stdout_eof: "out (lines_read e) = EOF \<Longrightarrow> read_stdout out fb task e = Some (None, e)"
  by (subst read_stdout.simps) simp

lemma read_stdout_error:
  "out (lines_read e) = ReadError x \<Longrightarrow> read_stdout out fb task e = Some (Some x, e)"
  by (subst read_stdout.simps) simp

lemma read_stdout_blocks: "out (lines_read e) = Blocks \<Longrightarrow> read_stdout out fb task e = None"
  by (subst read_stdout.simps) simp

lemma read_stdout_polls:
  "read_stdout out fb task e = Some y \<Longrightarrow> polls (snd y) + lines_read e = lines_read (snd y) + polls e"
proof (induct rule: read_stdout.raw_induct[rotated 1, consumes 1])
  case (1 read_stdout out fb task e y)
  show ?case
  proof (cases "out (lines_read e)")
    case (Line l)
    let ?e2 = "e\<lparr>lines_read := lines_read e + 1, sink := deliver (fb \<noteq> None) l (sink e),
         polls := polls e + 1\<rparr>"
    show ?thesis
    proof (cases "is_canceled fb task (polls e)")
      case True
      with Line "1.hyps"(2) show ?thesis by (auto simp: Let_def)
    next
      case False
      with Line "1.hyps"(2) have "read_stdout out fb task ?e2 = Some y" by (simp add: Let_def)
      from "1.hyps"(1)[OF this] show ?thesis by simp
    qed
  qed (use "1.hyps"(2) in auto)
qed

lemma read_stdout_frame:
  "read_stdout out fb task e = Some y \<Longrightarrow>
     scans (snd y) = scans e \<and> rpt_lines_read (snd y) = rpt_lines_read e
     \<and> lines_read e \<le> lines_read (snd y)"
proof (induct rule: read_stdout.raw_induct[rotated 1, consumes 1])
  case (1 read_stdout out fb task e y)
  show ?case
  proof (cases "out (lines_read e)")
    case (Line l)
    let ?e2 = "e\<lparr>lines_read := lines_read e + 1, sink := deliver (fb \<noteq> None) l (sink e),
         polls := polls e + 1\<rparr>"
    show ?thesis
    proof (cases "is_canceled fb task (polls e)")
      case True
      with Line "1.hyps"(2) show ?thesis by (auto simp: Let_def)
    next
      case False
      with Line "1.hyps"(2) have "read_stdout out fb task ?e2 = Some y" by (simp add: Let_def)
      from "1.hyps"(1)[OF this] show ?thesis by simp
    qed
  qed (use "1.hyps"(2) in auto)
qed

lemma read_stdout_prefix:
  assumes "\<forall>j < length ls. out (lines_read e + j) = Line (ls ! j) \<and> \<not> is_canceled fb task (polls e + j)"
  shows "read_stdout out fb task e =
    read_stdout out fb task
      (e\<lparr>lines_read := lines_read e + length ls,
         sink := foldl (\<lambda>u l. deliver (fb \<noteq> None) l u) (sink e) ls,
         polls := polls e + length ls\<rparr>)"
  using assms
proof (induction ls arbitrary: e)
  case Nil
  then show ?case by simp
next
  case (Cons l ls)
  let ?e1 = "e\<lparr>lines_read := lines_read e + 1, sink := deliver (fb \<noteq> None) l (sink e),
         polls := polls e + 1\<rparr>"
  from Cons.prems have h0: "out (lines_read e) = Line l" "\<not> is_canceled fb task (polls e)"
    by auto
  have rest: "\<forall>j < length ls. out (lines_read ?e1 + j) = Line (ls ! j)
      \<and> \<not> is_canceled fb task (polls ?e1 + j)"
  proof (intro allI impI)
    fix j assume "j < length ls"
    then have "Suc j < length (l # ls)" by simp
    with Cons.prems have "out (lines_read e + Suc j) = Line ((l # ls) ! Suc j)
      \<and> \<not> is_canceled fb task (polls e + Suc j)" by blast
    then show "out (lines_read ?e1 + j) = Line (ls ! j) \<and> \<not> is_canceled fb task (polls ?e1 + j)"
      by simp
  qed
  have "read_stdout out fb task e = read_stdout out fb task ?e1"
    by (rule read_stdout_line_continue[where out=out and e=e, OF h0])
  also have "\<dots> = read_stdout out fb task
      (?e1\<lparr>lines_read := lines_read ?e1 + length ls,
         sink := foldl (\<lambda>u l. deliver (fb \<noteq> None) l u) (sink ?e1) ls,
         polls := polls ?e1 + length ls\<rparr>)"
    by (rule Cons.IH[OF rest])
  finally show ?case by simp
qed

lemma msg_log_deliver_all:
  "msg_log (foldl (\<lambda>u l. deliver fb l u) u ls) =
     msg_log u @ map (Pair Info) (map rstrip (filter (\<lambda>l. strip l \<noteq> []) ls))"
  by (induction ls arbitrary: u) (simp_all add: deliver_def logMessage_def with_feedback_def pushInfo_def)

lemma fb_info_deliver_all:
  "fb_info (foldl (\<lambda>u l. deliver fb l u) u ls) =
     fb_info u @ (if fb then map rstrip (filter (\<lambda>l. strip l \<noteq> []) ls) else [])"
  by (induction ls arbitrary: u) (simp_all add: deliver_def logMessage_def with_feedback_def pushInfo_def)

lemma scan_lines_fb_info:
  "fb_info (snd (snd (scan_lines upper kw fb rs c n u))) = fb_info u"
  by (induction upper kw fb rs c n u rule: scan_lines.induct)
     (simp_all add: Let_def logMessage_def with_feedback_def pushWarning_def)

lemma scan_report_fb_info: "fb_info (snd (scan_report upper r fb u)) = fb_info u"
proof (cases r)
  case (Opened rs)
  obtain x n u' where sl: "scan_lines upper keyword_gpkg fb rs 0 0 u = (x, n, u')"
    by (cases "scan_lines upper keyword_gpkg fb rs 0 0 u")
  from scan_lines_fb_info[of upper keyword_gpkg fb rs 0 0 u] sl have "fb_info u' = fb_info u" by simp
  then show ?thesis
    by (simp add: scan_report_def scan_with_def Opened sl scan_failed_def Let_def logMessage_def
        with_feedback_def pushWarning_def split: sum.splits)
qed (simp_all add: scan_report_def scan_with_def scan_failed_def Let_def logMessage_def
        with_feedback_def pushWarning_def)

lemma scan_report_logged_info: "logged_info (snd (scan_report upper r fb u)) = logged_info u"
proof (cases r)
  case (Opened rs)
  then show ?thesis
    by (simp add: scan_report_def scan_with_log logged_info_def split: option.splits)
qed (simp_all add: scan_report_def scan_with_def scan_failed_def Let_def logMessage_def
        with_feedback_def pushWarning_def logged_info_def)

lemma run_after_block:
  "swmm_block popen fb task e = Some (Inr code, e1) \<Longrightarrow>
     run_swmm_process upper popen report fb task e =
       Some (code, e1\<lparr>sink := snd (scan_report upper report (fb \<noteq> None) (sink e1)),
                      scans := scans e1 + 1,
                      rpt_lines_read := fst (scan_report upper report (fb \<noteq> None) (sink e1))\<rparr>)"
  by (simp add: run_swmm_process_def split: prod.splits)

lemma run_after_exception:
  "swmm_block popen fb task e = Some (Inl x, e1) \<Longrightarrow>
     run_swmm_process upper popen report fb task e =
       Some (1, e1\<lparr>sink := run_failed (fb \<noteq> None) x (sink e1)\<rparr>)"
  by (simp add: run_swmm_process_def)

lemma swmm_block_frame:
  "swmm_block popen fb task e = Some (r, e1) \<Longrightarrow>
     scans e1 = scans e \<and> rpt_lines_read e1 = rpt_lines_read e"
  by (auto simp: swmm_block_def split: sum.splits option.splits prod.splits
      dest: read_stdout_frame)

lemma read_stdout_cancelled_after:
  assumes "ls \<noteq> []"
    and "\<forall>j < length ls. out j = Line (ls ! j)"
    and "\<forall>j < length ls - 1. \<not> is_canceled fb task j"
    and "is_canceled fb task (length ls - 1)"
  shows "read_stdout out fb task effects0 =
    Some (None, effects0\<lparr>lines_read := length ls,
       sink := foldl (\<lambda>u l. deliver (fb \<noteq> None) l u) ui0 ls,
       polls := length ls, terminated := True\<rparr>)"
proof -
  let ?pre = "butlast ls"
  let ?e = "effects0\<lparr>lines_read := lines_read effects0 + length ?pre,
         sink := foldl (\<lambda>u l. deliver (fb \<noteq> None) l u) (sink effects0) ?pre,
         polls := polls effects0 + length ?pre\<rparr>"
  have z: "lines_read effects0 = 0" "polls effects0 = 0" "sink effects0 = ui0"
    by (simp_all add: effects0_def)
  have pre: "\<forall>j < length ?pre. out (lines_read effects0 + j) = Line (?pre ! j)
      \<and> \<not> is_canceled fb task (polls effects0 + j)"
    using assms(2,3) by (simp add: z nth_butlast)
  have step1: "read_stdout out fb task effects0 = read_stdout out fb task ?e"
    by (rule read_stdout_prefix[OF pre])
  have lr: "lines_read ?e = length ls - 1" "polls ?e = length ls - 1" by (simp_all add: z)
  have "length ls - 1 < length ls" using assms(1) by (cases ls) simp_all
  with assms(2) have "out (length ls - 1) = Line (ls ! (length ls - 1))" by blast
  then have last: "out (lines_read ?e) = Line (last ls)"
    using assms(1) by (simp add: z last_conv_nth)
  have canc: "is_canceled fb task (polls ?e)" using assms(4) by (simp add: z)
  have ls: "butlast ls @ [last ls] = ls" using assms(1) by simp
  have fold: "deliver b (last ls) (foldl (\<lambda>u l. deliver b l u) ui0 (butlast ls))
      = foldl (\<lambda>u l. deliver b l u) ui0 ls" for b
  proof -
    have "foldl (\<lambda>u l. deliver b l u) ui0 (butlast ls @ [last ls]) =
        deliver b (last ls) (foldl (\<lambda>u l. deliver b l u) ui0 (butlast ls))"
      by (simp only: foldl_append foldl.simps)
    then show ?thesis by (simp only: ls)
  qed
  have len: "Suc (length ls - Suc 0) = length ls" using assms(1) by (cases ls) simp_all
  show ?thesis
    unfolding step1
    by (subst read_stdout_line_cancel[where out=out and e="?e", OF last canc])
       (simp add: z fold len)
qed

text \<open>
  Claim C7. In every run that returns, \<open>is_canceled\<close> was called once per line read from
  the child. When the child prints the lines \<open>ls\<close> and the poll after the last of them is
  the first to find the signal set, the run terminates the child, returns what
  \<open>proc.wait()\<close> gives for it, and has read and delivered exactly the lines \<open>ls\<close> (the
  blank ones are not delivered): nothing after them. A child that ends without a line is
  never polled nor terminated, whatever the signal; while a child stays silent and alive,
  the run does not return: it cannot be cancelled.
\<close>

theorem cancellation_polled_per_line:
  "(\<forall>code e'. run_swmm_process upper (Inr proc) report fb task effects0 = Some (code, e')
        \<longrightarrow> polls e' = lines_read e')
   \<and> (ls \<noteq> [] \<and> (\<forall>j < length ls. stdout proc j = Line (ls ! j))
        \<and> (\<forall>j < length ls - 1. \<not> is_canceled fb task j) \<and> is_canceled fb task (length ls - 1)
      \<longrightarrow> (\<exists>e'. run_swmm_process upper (Inr proc) report fb task effects0 = Some (wait proc True, e')
            \<and> terminated e' \<and> lines_read e' = length ls \<and> polls e' = length ls
            \<and> logged_info (sink e') = map rstrip (filter (\<lambda>l. strip l \<noteq> []) ls)
            \<and> fb_info (sink e') =
                (if fb \<noteq> None then map rstrip (filter (\<lambda>l. strip l \<noteq> []) ls) else [])))
   \<and> (stdout proc 0 = EOF
      \<longrightarrow> (\<exists>e'. run_swmm_process upper (Inr proc) report fb task effects0 = Some (wait proc False, e')
            \<and> \<not> terminated e' \<and> polls e' = 0 \<and> lines_read e' = 0))
   \<and> (stdout proc 0 = Blocks
      \<longrightarrow> run_swmm_process upper (Inr proc) report fb task effects0 = None)"
proof (intro conjI allI impI)
  fix code e'
  assume run: "run_swmm_process upper (Inr proc) report fb task effects0 = Some (code, e')"
  then obtain x e1 where rs: "read_stdout (stdout proc) fb task effects0 = Some (x, e1)"
    by (auto simp: run_swmm_process_def swmm_block_def split: option.splits)
  from read_stdout_polls[OF rs] have p: "polls e1 = lines_read e1" by (simp add: effects0_def)
  from run rs have "polls e' = polls e1 \<and> lines_read e' = lines_read e1"
    by (auto simp: run_swmm_process_def swmm_block_def split: option.splits prod.splits)
  with p show "polls e' = lines_read e'" by simp
next
  assume a: "ls \<noteq> [] \<and> (\<forall>j < length ls. stdout proc j = Line (ls ! j))
        \<and> (\<forall>j < length ls - 1. \<not> is_canceled fb task j) \<and> is_canceled fb task (length ls - 1)"
  let ?e1 = "effects0\<lparr>lines_read := length ls,
       sink := foldl (\<lambda>u l. deliver (fb \<noteq> None) l u) ui0 ls,
       polls := length ls, terminated := True\<rparr>"
  from a have rs: "read_stdout (stdout proc) fb task effects0 = Some (None, ?e1)"
    by (intro read_stdout_cancelled_after) simp_all
  then have blk: "swmm_block (Inr proc) fb task effects0 = Some (Inr (wait proc True), ?e1)"
    by (simp add: swmm_block_def)
  let ?e' = "?e1\<lparr>sink := snd (scan_report upper report (fb \<noteq> None) (sink ?e1)),
                      scans := scans ?e1 + 1,
                      rpt_lines_read := fst (scan_report upper report (fb \<noteq> None) (sink ?e1))\<rparr>"
  have "run_swmm_process upper (Inr proc) report fb task effects0 = Some (wait proc True, ?e')"
    by (rule run_after_block[OF blk])
  moreover have "terminated ?e'" "lines_read ?e' = length ls" "polls ?e' = length ls" by simp_all
  moreover have "logged_info (sink ?e') = map rstrip (filter (\<lambda>l. strip l \<noteq> []) ls)"
    by (simp add: scan_report_logged_info) (simp add: logged_info_def msg_log_deliver_all ui0_def)
  moreover have "fb_info (sink ?e') =
      (if fb \<noteq> None then map rstrip (filter (\<lambda>l. strip l \<noteq> []) ls) else [])"
    by (simp add: scan_report_fb_info fb_info_deliver_all ui0_def)
  ultimately show "\<exists>e'. run_swmm_process upper (Inr proc) report fb task effects0 = Some (wait proc True, e')
            \<and> terminated e' \<and> lines_read e' = length ls \<and> polls e' = length ls
            \<and> logged_info (sink e') = map rstrip (filter (\<lambda>l. strip l \<noteq> []) ls)
            \<and> fb_info (sink e') =
                (if fb \<noteq> None then map rstrip (filter (\<lambda>l. strip l \<noteq> []) ls) else [])"
    by blast
next
  assume "stdout proc 0 = EOF"
  then have "read_stdout (stdout proc) fb task effects0 = Some (None, effects0)"
    by (intro read_stdout_eof) (simp add: effects0_def)
  then have blk: "swmm_block (Inr proc) fb task effects0 = Some (Inr (wait proc False), effects0)"
    by (simp add: swmm_block_def effects0_def)
  from run_after_block[OF blk, of upper report]
  show "\<exists>e'. run_swmm_process upper (Inr proc) report fb task effects0 = Some (wait proc False, e')
            \<and> \<not> terminated e' \<and> polls e' = 0 \<and> lines_read e' = 0"
    by (simp add: effects0_def)
next
  assume "stdout proc 0 = Blocks"
  then have "read_stdout (stdout proc) fb task effects0 = None"
    by (intro read_stdout_blocks) (simp add: effects0_def)
  then show "run_swmm_process upper (Inr proc) report fb task effects0 = None"
    by (simp add: run_swmm_process_def swmm_block_def)
qed

theorem cancellation_polled_per_line_witness:
  "(\<exists>e'. run_swmm_process ascii_upper (Inr three_lines) Missing (Some always_canceled) None effects0 = Some (- 15, e')
     \<and> terminated e' \<and> lines_read e' = 1 \<and> polls e' = 1
     \<and> logged_info (sink e') = [(cps ''A'')] \<and> fb_info (sink e') = [(cps ''A'')])
   \<and> (\<exists>e'. run_swmm_process ascii_upper (Inr silent_child) Missing (Some always_canceled) None effects0 = Some (0, e')
     \<and> \<not> terminated e' \<and> polls e' = 0 \<and> lines_read e' = 0)
   \<and> run_swmm_process ascii_upper (Inr hanging_child) Missing (Some always_canceled) None effects0 = None"
proof (intro conjI)
  have r: "rstrip (cps ''A'') = cps ''A''" "strip (cps ''A'') = cps ''A''" "cps ''A'' \<noteq> []"
    by (simp_all add: str_eval)
  have h: "[(cps ''A'')] \<noteq> [] \<and> (\<forall>j < length [(cps ''A'')]. stdout three_lines j = Line ([(cps ''A'')] ! j))
        \<and> (\<forall>j < length [(cps ''A'')] - 1. \<not> is_canceled (Some always_canceled) None j)
        \<and> is_canceled (Some always_canceled) None (length [(cps ''A'')] - 1)"
    by (simp add: three_lines_def is_canceled_def always_canceled_def)
  from cancellation_polled_per_line[of ascii_upper three_lines Missing "Some always_canceled" None "[(cps ''A'')]"] h
  have "\<exists>e'. run_swmm_process ascii_upper (Inr three_lines) Missing (Some always_canceled) None effects0
            = Some (wait three_lines True, e')
            \<and> terminated e' \<and> lines_read e' = length [(cps ''A'')] \<and> polls e' = length [(cps ''A'')]
            \<and> logged_info (sink e') = map rstrip (filter (\<lambda>l. strip l \<noteq> []) [(cps ''A'')])
            \<and> fb_info (sink e') =
                (if Some always_canceled \<noteq> None then map rstrip (filter (\<lambda>l. strip l \<noteq> []) [(cps ''A'')]) else [])"
    by blast
  then show "\<exists>e'. run_swmm_process ascii_upper (Inr three_lines) Missing (Some always_canceled) None effects0 = Some (- 15, e')
     \<and> terminated e' \<and> lines_read e' = 1 \<and> polls e' = 1
     \<and> logged_info (sink e') = [(cps ''A'')] \<and> fb_info (sink e') = [(cps ''A'')]"
    by (simp add: r three_lines_def)
next
  have "stdout silent_child 0 = EOF" by (simp add: silent_child_def)
  with cancellation_polled_per_line[of ascii_upper silent_child Missing "Some always_canceled" None "[]"]
  show "\<exists>e'. run_swmm_process ascii_upper (Inr silent_child) Missing (Some always_canceled) None effects0 = Some (0, e')
     \<and> \<not> terminated e' \<and> polls e' = 0 \<and> lines_read e' = 0"
    by (simp add: silent_child_def)
next
  have "stdout hanging_child 0 = Blocks" by (simp add: hanging_child_def)
  with cancellation_polled_per_line[of ascii_upper hanging_child Missing "Some always_canceled" None "[]"]
  show "run_swmm_process ascii_upper (Inr hanging_child) Missing (Some always_canceled) None effects0 = None"
    by simp
qed

text \<open>
  Claim C10. In \<open>_run_swmm_process\<close> of \<open>swmm_run_inp_or_gpkg.py\<close>, when the \<open>try\<close>
  block completes, with any exit code and whether or not the child was terminated, the
  report is scanned once and the exit code is returned; when the block raises, while
  launching or while reading, the run returns 1 with the error reported and the report is
  not scanned.
\<close>

theorem scan_runs_iff_block_completes:
  "(\<forall>code e1. swmm_block popen fb task e = Some (Inr code, e1)
      \<longrightarrow> (\<exists>e'. run_swmm_process upper popen report fb task e = Some (code, e')
            \<and> scans e' = scans e + 1
            \<and> sink e' = snd (scan_report upper report (fb \<noteq> None) (sink e1))
            \<and> rpt_lines_read e' = fst (scan_report upper report (fb \<noteq> None) (sink e1))
            \<and> terminated e' = terminated e1))
   \<and> (\<forall>x e1. swmm_block popen fb task e = Some (Inl x, e1)
      \<longrightarrow> (\<exists>e'. run_swmm_process upper popen report fb task e = Some (1, e')
            \<and> scans e' = scans e \<and> rpt_lines_read e' = rpt_lines_read e
            \<and> sink e' = run_failed (fb \<noteq> None) x (sink e1)))
   \<and> (\<forall>x. run_swmm_process upper (Inl x) report fb task e =
            Some (1, e\<lparr>sink := run_failed (fb \<noteq> None) x (sink e)\<rparr>))
   \<and> (swmm_block popen fb task e = None \<longrightarrow> run_swmm_process upper popen report fb task e = None)"
proof (intro conjI allI impI)
  fix code e1
  assume blk: "swmm_block popen fb task e = Some (Inr code, e1)"
  from swmm_block_frame[OF blk] run_after_block[OF blk, of upper report]
  show "\<exists>e'. run_swmm_process upper popen report fb task e = Some (code, e')
            \<and> scans e' = scans e + 1
            \<and> sink e' = snd (scan_report upper report (fb \<noteq> None) (sink e1))
            \<and> rpt_lines_read e' = fst (scan_report upper report (fb \<noteq> None) (sink e1))
            \<and> terminated e' = terminated e1"
    by simp
next
  fix x e1
  assume blk: "swmm_block popen fb task e = Some (Inl x, e1)"
  from swmm_block_frame[OF blk] run_after_exception[OF blk, of upper report]
  show "\<exists>e'. run_swmm_process upper popen report fb task e = Some (1, e')
            \<and> scans e' = scans e \<and> rpt_lines_read e' = rpt_lines_read e
            \<and> sink e' = run_failed (fb \<noteq> None) x (sink e1)"
    by simp
next
  fix x
  show "run_swmm_process upper (Inl x) report fb task e =
            Some (1, e\<lparr>sink := run_failed (fb \<noteq> None) x (sink e)\<rparr>)"
    by (simp add: run_swmm_process_def swmm_block_def)
next
  assume "swmm_block popen fb task e = None"
  then show "run_swmm_process upper popen report fb task e = None"
    by (simp add: run_swmm_process_def)
qed

theorem scan_runs_iff_block_completes_witness:
  "(\<exists>e'. run_swmm_process ascii_upper (Inr three_lines) (Opened lines_3) (Some always_canceled) None effects0
            = Some (- 15, e') \<and> scans e' = 1 \<and> terminated e')
   \<and> (\<exists>e'. run_swmm_process ascii_upper (Inr failing_child) (Opened lines_3) None None effects0
            = Some (2, e') \<and> scans e' = 1 \<and> \<not> terminated e')
   \<and> (\<exists>e'. run_swmm_process ascii_upper (Inr garbled_child) (Opened lines_3) None None effects0
            = Some (1, e') \<and> scans e' = 0)
   \<and> (\<exists>e'. run_swmm_process ascii_upper (Inl (Exc (cps ''No such file or directory'') [])) (Opened lines_3) None None effects0
            = Some (1, e') \<and> scans e' = 0)
   \<and> run_swmm_process ascii_upper (Inr hanging_child) (Opened lines_3) None None effects0 = None"
proof (intro conjI)
  let ?e1 = "effects0\<lparr>lines_read := length [(cps ''A'')],
       sink := foldl (\<lambda>u l. deliver (Some always_canceled \<noteq> None) l u) ui0 [(cps ''A'')],
       polls := length [(cps ''A'')], terminated := True\<rparr>"
  have "read_stdout (stdout three_lines) (Some always_canceled) None effects0 = Some (None, ?e1)"
    by (rule read_stdout_cancelled_after)
       (simp_all add: three_lines_def is_canceled_def always_canceled_def)
  then have blk: "swmm_block (Inr three_lines) (Some always_canceled) None effects0
      = Some (Inr (- 15), ?e1)"
    by (simp add: swmm_block_def three_lines_def)
  from scan_runs_iff_block_completes[of "Inr three_lines" "Some always_canceled" None effects0
      ascii_upper "Opened lines_3"] blk
  show "\<exists>e'. run_swmm_process ascii_upper (Inr three_lines) (Opened lines_3) (Some always_canceled) None effects0
            = Some (- 15, e') \<and> scans e' = 1 \<and> terminated e'"
    by (auto simp: effects0_def)
next
  have e0: "failing_child = \<lparr>stdout = stdout failing_child, wait = wait failing_child\<rparr>" by simp
  let ?e1 = "effects0\<lparr>lines_read := 1, sink := deliver False (cps ''A'') ui0, polls := 1\<rparr>"
  have l0: "stdout failing_child (lines_read effects0) = Line (cps ''A'')"
    by (simp add: failing_child_def effects0_def)
  have nc: "\<not> is_canceled None None (polls effects0)" by (simp add: is_canceled_def)
  have "read_stdout (stdout failing_child) None None effects0 =
      read_stdout (stdout failing_child) None None
        (effects0\<lparr>lines_read := lines_read effects0 + 1,
           sink := deliver (None \<noteq> (None :: (nat \<Rightarrow> bool) option)) (cps ''A'') (sink effects0),
           polls := polls effects0 + 1\<rparr>)"
    by (rule read_stdout_line_continue[where out="stdout failing_child" and e=effects0, OF l0 nc])
  also have "\<dots> = Some (None, effects0\<lparr>lines_read := lines_read effects0 + 1,
           sink := deliver (None \<noteq> (None :: (nat \<Rightarrow> bool) option)) (cps ''A'') (sink effects0),
           polls := polls effects0 + 1\<rparr>)"
    by (rule read_stdout_eof) (simp add: failing_child_def effects0_def)
  finally have blk: "swmm_block (Inr failing_child) None None effects0
      = Some (Inr 2, effects0\<lparr>lines_read := lines_read effects0 + 1,
           sink := deliver (None \<noteq> (None :: (nat \<Rightarrow> bool) option)) (cps ''A'') (sink effects0),
           polls := polls effects0 + 1\<rparr>)"
    by (simp add: swmm_block_def failing_child_def effects0_def)
  from scan_runs_iff_block_completes[of "Inr failing_child" None None effects0 ascii_upper "Opened lines_3"] blk
  show "\<exists>e'. run_swmm_process ascii_upper (Inr failing_child) (Opened lines_3) None None effects0
            = Some (2, e') \<and> scans e' = 1 \<and> \<not> terminated e'"
    by (auto simp: effects0_def)
next
  have l0: "stdout garbled_child (lines_read effects0) = Line (cps ''A'')"
    by (simp add: garbled_child_def effects0_def)
  have nc: "\<not> is_canceled None None (polls effects0)" by (simp add: is_canceled_def)
  have "read_stdout (stdout garbled_child) None None effects0 =
      read_stdout (stdout garbled_child) None None
        (effects0\<lparr>lines_read := lines_read effects0 + 1,
           sink := deliver (None \<noteq> (None :: (nat \<Rightarrow> bool) option)) (cps ''A'') (sink effects0),
           polls := polls effects0 + 1\<rparr>)"
    by (rule read_stdout_line_continue[where out="stdout garbled_child" and e=effects0, OF l0 nc])
  also have "\<dots> = Some (Some (Exc (cps ''invalid start byte'') []),
        effects0\<lparr>lines_read := lines_read effects0 + 1,
           sink := deliver (None \<noteq> (None :: (nat \<Rightarrow> bool) option)) (cps ''A'') (sink effects0),
           polls := polls effects0 + 1\<rparr>)"
    by (rule read_stdout_error) (simp add: garbled_child_def effects0_def)
  finally have blk: "swmm_block (Inr garbled_child) None None effects0
      = Some (Inl (Exc (cps ''invalid start byte'') []), effects0\<lparr>lines_read := lines_read effects0 + 1,
           sink := deliver (None \<noteq> (None :: (nat \<Rightarrow> bool) option)) (cps ''A'') (sink effects0),
           polls := polls effects0 + 1\<rparr>)"
    by (simp add: swmm_block_def)
  from scan_runs_iff_block_completes[of "Inr garbled_child" None None effects0 ascii_upper "Opened lines_3"] blk
  show "\<exists>e'. run_swmm_process ascii_upper (Inr garbled_child) (Opened lines_3) None None effects0
            = Some (1, e') \<and> scans e' = 0"
    by (auto simp: effects0_def)
next
  from scan_runs_iff_block_completes[of "Inl (Exc (cps ''No such file or directory'') [])" None None
      effects0 ascii_upper "Opened lines_3"]
  show "\<exists>e'. run_swmm_process ascii_upper (Inl (Exc (cps ''No such file or directory'') [])) (Opened lines_3) None None effects0
            = Some (1, e') \<and> scans e' = 0"
    by (simp add: effects0_def)
next
  have "read_stdout (stdout hanging_child) None None effects0 = None"
    by (rule read_stdout_blocks) (simp add: hanging_child_def)
  then have b: "swmm_block (Inr hanging_child) None None effects0 = None"
    by (simp add: swmm_block_def)
  from scan_runs_iff_block_completes[of "Inr hanging_child" None None effects0 ascii_upper "Opened lines_3"] b
  show "run_swmm_process ascii_upper (Inr hanging_child) (Opened lines_3) None None effects0 = None"
    by simp
qed


section \<open>Failures: values and exceptions\<close>














end
